theory Spec2Isabelle
  imports Main "HOL-Library.While_Combinator"
begin

section \<open>Strings\<close>

text \<open>
  A JavaScript string is a sequence of UTF-16 code units; indexing, \<open>length\<close>,
  \<open>slice\<close>, \<open>substring\<close> and regular expressions without the \<open>u\<close> flag all
  count code units. A code unit is modelled as a natural number (below 65536 in every
  actual string), a string as the list of its code units. \<open>js\<close> turns an ASCII literal
  into that representation.
\<close>

type_synonym jschar = nat
type_synonym jsstring = "jschar list"

definition js :: "string \<Rightarrow> jsstring" where
  "js s = map of_char s"

text \<open>\<open>s[i]\<close>: the code unit at \<open>i\<close>, \<open>undefined\<close> (here \<open>None\<close>) out of range.\<close>

definition charAt :: "jsstring \<Rightarrow> nat \<Rightarrow> jschar option" where
  "charAt s i = (if i < length s then Some (s ! i) else None)"

text \<open>\<open>s.slice(a, b)\<close> for non-negative \<open>a\<close>, \<open>b\<close>: empty when \<open>b \<le> a\<close>.\<close>

definition slice :: "'a list \<Rightarrow> nat \<Rightarrow> nat \<Rightarrow> 'a list" where
  "slice s a b = take (b - a) (drop a s)"

text \<open>\<open>s.substring(a, b)\<close> for non-negative \<open>a\<close>, \<open>b\<close>: the arguments are swapped
  when \<open>a > b\<close>.\<close>

definition substring :: "jsstring \<Rightarrow> nat \<Rightarrow> nat \<Rightarrow> jsstring" where
  "substring s a b = (if a \<le> b then take (b - a) (drop a s) else take (a - b) (drop b s))"

text \<open>\<open>xs.join(sep)\<close> on an array of strings.\<close>

fun join :: "jsstring \<Rightarrow> jsstring list \<Rightarrow> jsstring" where
  "join sep [] = []"
| "join sep [x] = x"
| "join sep (x # y # ys) = x @ sep @ join sep (y # ys)"

text \<open>\<open>s.split('\n')\<close>: always at least one piece.\<close>

fun split_lines :: "jsstring \<Rightarrow> jsstring list" where
  "split_lines [] = [[]]"
| "split_lines (c # cs) =
     (if c = 10 then [] # split_lines cs
      else (case split_lines cs of l # ls \<Rightarrow> (c # l) # ls | [] \<Rightarrow> [[c]]))"

text \<open>
  The class \<open>\s\<close> of a regular expression: tab, line feed, vertical tab, form feed,
  carriage return, space, no-break space, U+1680, U+2000 to U+200A, U+2028, U+2029,
  U+202F, U+205F, U+3000 and U+FEFF. \<open>String.prototype.trim\<close> strips the same set.
\<close>

definition is_space :: "jschar \<Rightarrow> bool" where
  "is_space c \<longleftrightarrow>
     c \<in> {9, 10, 11, 12, 13, 32, 160, 5760, 8232, 8233, 8239, 8287, 12288, 65279}
     \<or> (8192 \<le> c \<and> c \<le> 8202)"

text \<open>\<open>const WHITESPACE = /\s/\<close> and \<open>WHITESPACE.test(s[i])\<close>: the argument is one code
  unit, or \<open>undefined\<close>, which is converted to the text "undefined" and holds no
  white space.\<close>

definition WHITESPACE_test :: "jschar option \<Rightarrow> bool" where
  "WHITESPACE_test x = (case x of None \<Rightarrow> False | Some c \<Rightarrow> is_space c)"

definition trim :: "jsstring \<Rightarrow> jsstring" where
  "trim s = rev (dropWhile is_space (rev (dropWhile is_space s)))"


section \<open>Data model (shared.ts)\<close>

text \<open>
  \<open>interface StateNode { type: string; content: (StateNode | string)[]; length?: number }\<close>.
  The optional \<open>length\<close> is the field \<open>length_opt\<close>.
\<close>

datatype item = Str jsstring | Node StateNode
and StateNode = StateNode (type: string) (content: "item list") (length_opt: "nat option")

text \<open>\<open>block.length || 1\<close>: a missing or zero length counts as one line.\<close>

definition length_or_1 :: "StateNode \<Rightarrow> nat" where
  "length_or_1 b = (case length_opt b of None \<Rightarrow> 1 | Some n \<Rightarrow> (if n = 0 then 1 else n))"

lemma size_item_in_list: "i \<in> set xs \<Longrightarrow> size i \<le> size_list size xs"
  by (induction xs) auto

text \<open>
  \<open>serializeState(list, block = false)\<close>: strings are kept, nodes are replaced by the
  serialization of their content, to which the flag \<open>block\<close> is passed on, and the
  pieces are joined by a line feed when \<open>block\<close> is set and by nothing otherwise. (The
  test \<open>typeof list === 'string'\<close> cannot succeed on a value of the declared type.)
\<close>

function serializeState :: "item list \<Rightarrow> bool \<Rightarrow> jsstring" where
  "serializeState list block =
     join (if block then [10] else [])
       (map (\<lambda>i. case i of Str s \<Rightarrow> s | Node n \<Rightarrow> serializeState (content n) block) list)"
  by pat_completeness auto
termination
proof (relation "measure (\<lambda>(list, block). size_list size list)", goal_cases)
  case 1
  show ?case by simp
next
  case (2 list block i n)
  have "size_list size (content n) < size (Node n)"
    by (cases n) simp
  with size_item_in_list [OF 2(1)] 2(2) show ?case by simp
qed

declare serializeState.simps [simp del]


section \<open>Inline parser (parser.ts)\<close>

text \<open>The scanner state of \<open>parseInline\<close>; its method \<open>parse\<close> is passed separately.\<close>

record istate =
  index :: nat
  string :: jsstring
  tokens :: "item list"

text \<open>
  \<open>findCloseIndex(state, match)\<close>: the first \<open>n\<close> from \<open>index + match.length\<close> on, below
  the length of the string, at which \<open>match\<close> stands and whose preceding code unit is
  not white space; \<open>-1\<close> (here \<open>None\<close>) when there is none.
\<close>

definition findCloseIndex :: "istate \<Rightarrow> jsstring \<Rightarrow> nat option" where
  "findCloseIndex state match =
     find (\<lambda>n. substring (string state) n (n + length match) = match
                \<and> \<not> WHITESPACE_test (charAt (string state) (n - 1)))
          [index state + length match ..< length (string state)]"

text \<open>\<open>findCloseIndexSimple(state, start, match)\<close>, \<open>match\<close> a single code unit.\<close>

definition findCloseIndexSimple :: "istate \<Rightarrow> nat \<Rightarrow> jschar \<Rightarrow> nat option" where
  "findCloseIndexSimple state start match =
     find (\<lambda>n. charAt (string state) n = Some match) [start ..< length (string state)]"

text \<open>A marker is one string, used to open and to close, or a pair.\<close>

record chars =
  opn :: jsstring
  cls :: jsstring

datatype chars_spec = Same jsstring | OpenClose jsstring jsstring

fun getChars :: "chars_spec \<Rightarrow> chars" where
  "getChars (Same c) = \<lparr>opn = c, cls = c\<rparr>"
| "getChars (OpenClose a b) = \<lparr>opn = a, cls = b\<rparr>"

definition matchChars :: "chars_spec list \<Rightarrow> istate \<Rightarrow> nat \<Rightarrow> chars option" where
  "matchChars CHARS state i =
     find (\<lambda>chars2. substring (string state) i (i + length (opn chars2)) = opn chars2)
          (map getChars CHARS)"

text \<open>
  \<open>create(CHARS, type, richContent, contentRequired)\<close> builds one inline rule. The rule
  returns \<open>false\<close> without touching the state (here \<open>None\<close>), or pushes one node, moves
  the index behind the closing marker and returns \<open>true\<close> (here the new state).
  \<open>parse\<close> is \<open>state.parse\<close>, the inline parser on a slice of the string.
\<close>

definition create ::
  "chars_spec list \<Rightarrow> string \<Rightarrow> bool \<Rightarrow> bool \<Rightarrow> (nat \<Rightarrow> nat \<Rightarrow> item list) \<Rightarrow> istate
     \<Rightarrow> istate option" where
  "create CHARS ty richContent contentRequired parse state =
     (case matchChars CHARS state (index state) of
        None \<Rightarrow> None
      | Some char \<Rightarrow>
         (case charAt (string state) (index state + length (opn char)) of
            None \<Rightarrow> None
          | Some nextChar \<Rightarrow>
             if is_space nextChar then None
             else
               (case findCloseIndex state (cls char) of
                  None \<Rightarrow> None
                | Some closeIndex \<Rightarrow>
                   if contentRequired \<and> closeIndex = index state + length (opn char) then None
                   else
                     let content =
                       (if richContent then parse (index state + length (opn char)) closeIndex
                        else [Str (slice (string state) (index state + length (opn char)) closeIndex)])
                     in Some (state
                          \<lparr>tokens := tokens state @
                             [Node (StateNode ty ([Str (opn char)] @ content @ [Str (cls char)]) None)],
                           index := closeIndex + length (cls char)\<rparr>))))"

text \<open>\<open>tryLink\<close>: \<open>[text](url)\<close>. The closing parenthesis is searched from
  \<open>state.index\<close>, as the closing bracket is.\<close>

definition tryLink :: "istate \<Rightarrow> istate option" where
  "tryLink state =
     (if charAt (string state) (index state) \<noteq> Some 91 then None
      else
        (case findCloseIndexSimple state (index state) 93 of
           None \<Rightarrow> None
         | Some closeBracketIndex \<Rightarrow>
            (if int (index state) = int closeBracketIndex - 1 then None
             else
               (let text = slice (string state) (index state + 1) closeBracketIndex in
                 (if 91 \<in> set text then None
                  else if charAt (string state) (closeBracketIndex + 1) \<noteq> Some 40 then None
                  else
                    (case findCloseIndexSimple state (index state) 41 of
                       None \<Rightarrow> None
                     | Some closeParIndex \<Rightarrow>
                        (let url = slice (string state) (closeBracketIndex + 2) closeParIndex in
                          (if 40 \<in> set url then None
                           else if int closeBracketIndex = int closeParIndex - 2 then None
                           else Some (state
                             \<lparr>tokens := tokens state @
                                [Node (StateNode ''link''
                                   [Str [91], Str text, Str [93], Str [40], Str url, Str [41]] None)],
                              index := closeParIndex + 1\<rparr>)))))))))"

abbreviation "tryEmphasis \<equiv> create [Same (js ''*''), Same (js ''_'')] ''em'' True False"
abbreviation "tryStrong \<equiv> create [Same (js ''**''), Same (js ''__'')] ''strong'' True False"
abbreviation "tryUnderline \<equiv> create [Same (js ''~'')] ''underline'' True False"
abbreviation "tryStrikethrough \<equiv> create [Same (js ''~~'')] ''strikethrough'' True False"
abbreviation "tryMark \<equiv> create [Same (js ''::'')] ''mark'' True False"
abbreviation "tryReference \<equiv> create [OpenClose (js ''[['') (js '']]'')] ''reference'' True False"
abbreviation "tryCode \<equiv> create [Same [96]] ''code'' False False"
abbreviation "tryFile \<equiv> create [OpenClose (js ''[file:'') (js '']'')] ''file'' False False"
abbreviation "tryImage \<equiv> create [OpenClose (js ''[image:'') (js '']'')] ''image'' False False"
abbreviation "tryTag \<equiv> create [Same (js ''#'')] ''tag'' False True"

text \<open>
  \<open>addText\<close>: appends the current code unit to the last token when that is a string,
  to a new empty string otherwise, and advances by one. (Out of range the source would
  append the text "undefined"; the scanner never calls it there.)
\<close>

definition addText :: "istate \<Rightarrow> istate" where
  "addText state =
     (let toks = (case (if tokens state = [] then None else Some (last (tokens state))) of
                    Some (Str s) \<Rightarrow> tokens state
                  | _ \<Rightarrow> tokens state @ [Str []]);
          c = (case charAt (string state) (index state) of
                 Some c \<Rightarrow> [c] | None \<Rightarrow> js ''undefined'')
      in state
        \<lparr>tokens := butlast toks @ [case last toks of Str s \<Rightarrow> Str (s @ c) | Node n \<Rightarrow> Node n],
         index := index state + 1\<rparr>)"

lemma findCloseIndex_bound:
  "findCloseIndex state m = Some n \<Longrightarrow> index state + length m \<le> n \<and> n < length (string state)"
  by (auto simp: findCloseIndex_def find_Some_iff)

lemma create_parse_eq:
  assumes "\<And>a b. b < length (string state) \<Longrightarrow> parse a b = parse' a b"
  shows "create CHARS ty rich req parse state = create CHARS ty rich req parse' state"
  using assms
  by (auto simp: create_def Let_def dest!: findCloseIndex_bound split: option.splits)

text \<open>
  One iteration of the \<open>while\<close> loop of \<open>parseInline\<close>: the rules are tried in the
  source's order, the first that succeeds gives the next state, and \<open>addText\<close> is the
  default.
\<close>

definition inline_step :: "(nat \<Rightarrow> nat \<Rightarrow> item list) \<Rightarrow> istate \<Rightarrow> istate" where
  "inline_step parse state =
     (case tryLink state of Some s \<Rightarrow> s | None \<Rightarrow>
     (case tryStrong parse state of Some s \<Rightarrow> s | None \<Rightarrow>
     (case tryEmphasis parse state of Some s \<Rightarrow> s | None \<Rightarrow>
     (case tryStrikethrough parse state of Some s \<Rightarrow> s | None \<Rightarrow>
     (case tryUnderline parse state of Some s \<Rightarrow> s | None \<Rightarrow>
     (case tryMark parse state of Some s \<Rightarrow> s | None \<Rightarrow>
     (case tryReference parse state of Some s \<Rightarrow> s | None \<Rightarrow>
     (case tryCode parse state of Some s \<Rightarrow> s | None \<Rightarrow>
     (case tryFile parse state of Some s \<Rightarrow> s | None \<Rightarrow>
     (case tryImage parse state of Some s \<Rightarrow> s | None \<Rightarrow>
     (case tryTag parse state of Some s \<Rightarrow> s | None \<Rightarrow>
      addText state)))))))))))"

lemma inline_step_cong [fundef_cong]:
  assumes "state = state'"
    and "\<And>a b. b < length (string state') \<Longrightarrow> parse a b = parse' a b"
  shows "inline_step parse state = inline_step parse' state'"
proof -
  have eq: "\<And>C t r q. create C t r q parse state' = create C t r q parse' state'"
    by (rule create_parse_eq) (rule assms(2))
  show ?thesis
    unfolding inline_step_def assms(1) eq ..
qed

lemma substring_eq_length:
  assumes "substring s n (n + length m) = m"
  shows "n + length m \<le> length s \<or> m = []"
proof -
  from assms have "length (take (length m) (drop n s)) = length m"
    by (simp add: substring_def)
  then show ?thesis by (cases m) (auto simp: min_def split: if_splits)
qed

lemma findCloseIndex_Some:
  assumes "findCloseIndex state m = Some n"
  shows "index state + length m \<le> n" "n < length (string state)"
    "n + length m \<le> length (string state)"
    "substring (string state) n (n + length m) = m"
    "\<not> WHITESPACE_test (charAt (string state) (n - 1))"
proof -
  from assms show a: "index state + length m \<le> n" and b: "n < length (string state)"
    and c: "substring (string state) n (n + length m) = m"
    and "\<not> WHITESPACE_test (charAt (string state) (n - 1))"
    by (auto simp: findCloseIndex_def find_Some_iff)
  from substring_eq_length [OF c] b show "n + length m \<le> length (string state)"
    by auto
qed

lemma matchChars_Some:
  "matchChars CHARS state i = Some c \<Longrightarrow> c \<in> set (map getChars CHARS)"
  by (auto simp: matchChars_def find_Some_iff)

lemma create_Some:
  assumes "create CHARS ty rich req parse state = Some s"
  obtains char nextChar closeIndex where
    "matchChars CHARS state (index state) = Some char"
    "charAt (string state) (index state + length (opn char)) = Some nextChar"
    "\<not> is_space nextChar"
    "findCloseIndex state (cls char) = Some closeIndex"
    "\<not> (req \<and> closeIndex = index state + length (opn char))"
    "s = state
       \<lparr>tokens := tokens state @
          [Node (StateNode ty
             ([Str (opn char)] @
              (if rich then parse (index state + length (opn char)) closeIndex
               else [Str (slice (string state) (index state + length (opn char)) closeIndex)]) @
              [Str (cls char)]) None)],
        index := closeIndex + length (cls char)\<rparr>"
  using assms unfolding create_def Let_def
  by (auto split: option.splits if_splits)

lemma create_index:
  assumes "create CHARS ty rich req parse state = Some s"
    and "\<forall>c \<in> set CHARS. cls (getChars c) \<noteq> []"
  shows "string s = string state" "index s \<le> length (string state)" "index state < index s"
proof -
  from assms(1) obtain char closeIndex where
    m: "matchChars CHARS state (index state) = Some char" and
    f: "findCloseIndex state (cls char) = Some closeIndex" and
    s: "index s = closeIndex + length (cls char)" "string s = string state"
    by (elim create_Some) simp
  from matchChars_Some [OF m] assms(2) have "1 \<le> length (cls char)"
    by (cases "cls char") auto
  with findCloseIndex_Some(1,3) [OF f] s
  show "string s = string state" "index s \<le> length (string state)" "index state < index s"
    by linarith+
qed

lemma findCloseIndexSimple_Some:
  "findCloseIndexSimple state start m = Some n \<Longrightarrow>
     start \<le> n \<and> n < length (string state) \<and> string state ! n = m"
  by (auto simp: findCloseIndexSimple_def find_Some_iff charAt_def split: if_splits)

lemma tryLink_index:
  assumes "tryLink state = Some s"
  shows "string s = string state" "index s \<le> length (string state)" "index state < index s"
  using assms unfolding tryLink_def Let_def
  by (auto split: option.splits if_splits dest!: findCloseIndexSimple_Some)

lemma addText_index: "string (addText state) = string state" "index (addText state) = index state + 1"
  by (simp_all add: addText_def Let_def)

lemma case_option_cases:
  "(x = None \<Longrightarrow> P a) \<Longrightarrow> (\<And>s. x = Some s \<Longrightarrow> P s) \<Longrightarrow>
     P (case x of None \<Rightarrow> a | Some s \<Rightarrow> s)"
  by (cases x) auto

lemma inline_step_cases:
  assumes "\<And>s. tryLink state = Some s \<Longrightarrow> P s"
    and "\<And>CHARS ty rich req s. create CHARS ty rich req parse state = Some s \<Longrightarrow>
           \<forall>c \<in> set CHARS. opn (getChars c) \<noteq> [] \<and> cls (getChars c) \<noteq> [] \<Longrightarrow> P s"
    and "P (addText state)"
  shows "P (inline_step parse state)"
  unfolding inline_step_def
  by (intro case_option_cases [where P = P] assms(3);
      (rule assms(1), assumption | rule assms(2), assumption, simp add: js_def))

lemma inline_step_index:
  assumes "index state < length (string state)"
  shows "string (inline_step parse state) = string state \<and>
    index state < index (inline_step parse state) \<and>
    index (inline_step parse state) \<le> length (string state)"
proof (rule inline_step_cases)
  fix s assume "tryLink state = Some s"
  from tryLink_index [OF this]
  show "string s = string state \<and> index state < index s \<and> index s \<le> length (string state)"
    by simp
next
  fix CHARS ty rich req s
  assume "create CHARS ty rich req parse state = Some s"
    and "\<forall>c \<in> set CHARS. opn (getChars c) \<noteq> [] \<and> cls (getChars c) \<noteq> []"
  then show "string s = string state \<and> index state < index s \<and> index s \<le> length (string state)"
    using create_index [of CHARS ty rich req parse state s] by simp
next
  from assms
  show "string (addText state) = string state \<and> index state < index (addText state) \<and>
    index (addText state) \<le> length (string state)"
    by (simp add: addText_index)
qed

text \<open>
  The loop of \<open>parseInline\<close>, on the scanner state. \<open>state.parse(start, end)\<close> is
  \<open>parseInline(text.slice(start, end))\<close>: a fresh scanner on the slice.
\<close>

function parseInline_loop :: "istate \<Rightarrow> item list" where
  "parseInline_loop state =
     (if index state < length (string state) then
        parseInline_loop
          (inline_step
             (\<lambda>start end.
                 parseInline_loop \<lparr>index = 0, string = slice (string state) start end, tokens = []\<rparr>)
             state)
      else tokens state)"
  by pat_completeness auto
termination
proof (relation "measures [\<lambda>st. length (string st), \<lambda>st. length (string st) - index st]",
    goal_cases)
  case 1
  show ?case by simp
next
  case (2 state a b)
  then show ?case by (simp add: slice_def) arith
next
  case (3 state)
  define s where "s = inline_step (\<lambda>start end. parseInline_loop
              \<lparr>index = 0, string = slice (string state) start end, tokens = []\<rparr>) state"
  have "string s = string state \<and> index state < index s \<and> index s \<le> length (string state)"
    unfolding s_def using 3(1) by (rule inline_step_index)
  then have "(s, state) \<in> measures [\<lambda>st. length (string st), \<lambda>st. length (string st) - index st]"
    using 3(1) by simp arith
  then show ?case unfolding s_def .
qed


definition parseInline :: "jsstring \<Rightarrow> item list" where
  "parseInline text = parseInline_loop \<lparr>index = 0, string = text, tokens = []\<rparr>"

declare parseInline_loop.simps [simp del]



section \<open>Block parser (parser.ts)\<close>

text \<open>
  Each regular expression of the source is a function from the line to the list of its
  capture groups (\<open>match.slice(1)\<close>), \<open>None\<close> when the line does not match. None has
  the \<open>m\<close>, \<open>i\<close>, \<open>s\<close> or \<open>u\<close> flag: \<open>^\<close> and \<open>$\<close> are the ends of the line, letters
  match in their own case only, and \<open>.\<close> matches every code unit but the line
  terminators U+000A, U+000D, U+2028 and U+2029.
\<close>

definition is_digit :: "jschar \<Rightarrow> bool" where
  "is_digit c \<longleftrightarrow> 48 \<le> c \<and> c \<le> 57"

definition is_line_terminator :: "jschar \<Rightarrow> bool" where
  "is_line_terminator c \<longleftrightarrow> c = 10 \<or> c = 13 \<or> c = 8232 \<or> c = 8233"

text \<open>\<open>const HEADING = /^(#{1,6}) /\<close>\<close>

definition HEADING :: "jsstring \<Rightarrow> jsstring list option" where
  "HEADING line =
     (let k = length (takeWhile (\<lambda>c. c = 35) line)
      in if 1 \<le> k \<and> k \<le> 6 \<and> charAt line k = Some 32 then Some [take k line] else None)"

text \<open>\<open>const HR = /^(-{3,}|\*{3,}|_{3,})$/\<close>\<close>

definition HR :: "jsstring \<Rightarrow> jsstring list option" where
  "HR line =
     (if 3 \<le> length line \<and>
         (list_all (\<lambda>c. c = 45) line \<or> list_all (\<lambda>c. c = 42) line \<or> list_all (\<lambda>c. c = 95) line)
      then Some [line] else None)"

text \<open>\<open>const TODO_ITEM = /^(\s*)(- \[(?: |x)\])( )/\<close>\<close>

definition TODO_ITEM :: "jsstring \<Rightarrow> jsstring list option" where
  "TODO_ITEM line =
     (let ws = takeWhile is_space line; rest = dropWhile is_space line
      in if take 6 rest = js ''- [ ] '' \<or> take 6 rest = js ''- [x] ''
         then Some [ws, take 5 rest, js '' ''] else None)"

text \<open>\<open>const ORDERED_ITEM = /^(\s*)(\d+)(\.) /\<close>\<close>

definition ORDERED_ITEM :: "jsstring \<Rightarrow> jsstring list option" where
  "ORDERED_ITEM line =
     (let ws = takeWhile is_space line; rest = dropWhile is_space line;
          digits = takeWhile is_digit rest; rest2 = dropWhile is_digit rest
      in if digits \<noteq> [] \<and> take 2 rest2 = js ''. '' then Some [ws, digits, js ''.''] else None)"

text \<open>\<open>const UNORDERED_ITEM = /^(\s*)([*-]) /\<close>\<close>

definition UNORDERED_ITEM :: "jsstring \<Rightarrow> jsstring list option" where
  "UNORDERED_ITEM line =
     (let ws = takeWhile is_space line; rest = dropWhile is_space line
      in if take 2 rest = js ''* '' \<or> take 2 rest = js ''- '' then Some [ws, take 1 rest] else None)"

text \<open>\<open>const BLOCKQUOTE = /^(>) /\<close>\<close>

definition BLOCKQUOTE :: "jsstring \<Rightarrow> jsstring list option" where
  "BLOCKQUOTE line = (if take 2 line = js ''> '' then Some [js ''>''] else None)"

text \<open>
  \<open>matchLine(regex, type)\<close>: a one-line block whose content is the capture groups
  followed by the inline parse of the line behind them. The context
  \<open>{ lines, index, parseInline }\<close> is passed as three arguments; the block parser calls
  every rule with \<open>index < lines.length\<close>.
\<close>

definition matchLine ::
  "(jsstring \<Rightarrow> jsstring list option) \<Rightarrow> string \<Rightarrow>
     (jsstring \<Rightarrow> item list) \<Rightarrow> jsstring list \<Rightarrow> nat \<Rightarrow> StateNode option" where
  "matchLine regex ty parseInl lines idx =
     (let line = lines ! idx in
      case regex line of
        None \<Rightarrow> None
      | Some matches \<Rightarrow>
          Some (StateNode ty
                  (map Str matches @ parseInl (drop (length (concat matches)) line))
                  (Some 1)))"

text \<open>\<open>const OPEN = /^(`{3})(.*)$/\<close> and \<open>const CLOSE = /^`{3,}.*$/\<close> (96 is the
  backtick).\<close>

definition OPEN :: "jsstring \<Rightarrow> jsstring list option" where
  "OPEN line =
     (if take 3 line = [96, 96, 96] \<and> \<not> list_ex is_line_terminator (drop 3 line)
      then Some [take 3 line, drop 3 line] else None)"

definition CLOSE_test :: "jsstring \<Rightarrow> bool" where
  "CLOSE_test line \<longleftrightarrow> take 3 line = [96, 96, 96] \<and> \<not> list_ex is_line_terminator (drop 3 line)"

definition findClosingLine :: "jsstring list \<Rightarrow> nat \<Rightarrow> nat option" where
  "findClosingLine lines idx = find (\<lambda>n. CLOSE_test (lines ! n)) [idx + 1 ..< length lines]"

definition codeBlock ::
  "(jsstring \<Rightarrow> item list) \<Rightarrow> jsstring list \<Rightarrow> nat \<Rightarrow> StateNode option" where
  "codeBlock parseInl lines idx =
     (case OPEN (lines ! idx) of
        None \<Rightarrow> None
      | Some match \<Rightarrow>
         (case findClosingLine lines idx of
            None \<Rightarrow> None
          | Some closingLineIndex \<Rightarrow>
              let content =
                (if idx + 1 = closingLineIndex then [Str []]
                 else [Str (join [10] (slice lines (idx + 1) closingLineIndex)), Str [10]])
              in Some (StateNode ''code_block''
                   ([Str (match ! 0), Str (match ! 1), Str [10]] @ content @
                    [Str (lines ! closingLineIndex)])
                   (Some (closingLineIndex - idx + 1)))))"

abbreviation "heading \<equiv> matchLine HEADING ''heading''"
abbreviation "horizontalRule \<equiv> matchLine HR ''horizontal_rule''"
abbreviation "todoItem \<equiv> matchLine TODO_ITEM ''todo_item''"
abbreviation "orderedList \<equiv> matchLine ORDERED_ITEM ''ordered_list_item''"
abbreviation "unorderedList \<equiv> matchLine UNORDERED_ITEM ''unordered_list_item''"
abbreviation "blockquote \<equiv> matchLine BLOCKQUOTE ''blockquote''"

text \<open>The rule \<open>paragraph\<close> of the source (the name is reserved here).\<close>

definition paragraphRule ::
  "(jsstring \<Rightarrow> item list) \<Rightarrow> jsstring list \<Rightarrow> nat \<Rightarrow> StateNode option" where
  "paragraphRule parseInl lines idx =
     (let line = lines ! idx in
      if trim line = [] then None
      else Some (StateNode ''paragraph'' (parseInl line) (Some 1)))"

definition parsers ::
  "((jsstring \<Rightarrow> item list) \<Rightarrow> jsstring list \<Rightarrow> nat \<Rightarrow> StateNode option) list" where
  "parsers =
     [codeBlock, heading, horizontalRule, todoItem, orderedList, unorderedList, blockquote,
      paragraphRule]"

text \<open>The \<open>for (const parser of parsers)\<close> loop: the first rule with a result.\<close>

fun first_result ::
  "((jsstring \<Rightarrow> item list) \<Rightarrow> jsstring list \<Rightarrow> nat \<Rightarrow> StateNode option) list \<Rightarrow>
     (jsstring \<Rightarrow> item list) \<Rightarrow> jsstring list \<Rightarrow> nat \<Rightarrow> StateNode option" where
  "first_result [] parseInl lines idx = None"
| "first_result (parser # ps) parseInl lines idx =
     (case parser parseInl lines idx of
        Some result \<Rightarrow> Some result
      | None \<Rightarrow> first_result ps parseInl lines idx)"

text \<open>
  The \<open>while\<close> loop of the generator \<open>parseBlock\<close>, as the list of the blocks it yields
  from line \<open>idx\<close> on. The parser is pure, so the list of all yielded blocks stands for
  the generator.
\<close>

function parseBlock_from ::
  "(jsstring \<Rightarrow> item list) \<Rightarrow> jsstring list \<Rightarrow> nat \<Rightarrow> StateNode list" where
  "parseBlock_from parseInl lines idx =
     (if idx < length lines then
        (case first_result parsers parseInl lines idx of
           Some result \<Rightarrow> result # parseBlock_from parseInl lines (idx + length_or_1 result)
         | None \<Rightarrow>
             StateNode ''paragraph'' [Str []] (Some 1) # parseBlock_from parseInl lines (idx + 1))
      else [])"
  by pat_completeness auto
termination
  by (relation "measure (\<lambda>(parseInl, lines, idx). length lines - idx)")
     (auto simp: length_or_1_def split: option.splits)

declare parseBlock_from.simps [simp del]

text \<open>\<open>parseBlock(value, typeOnly = false)\<close>; \<open>value\<close> is a string (\<open>Inl\<close>), split at
  line feeds, or an array of lines (\<open>Inr\<close>).\<close>

definition parseBlock :: "jsstring + jsstring list \<Rightarrow> bool \<Rightarrow> StateNode list" where
  "parseBlock v typeOnly =
     parseBlock_from (if typeOnly then (\<lambda>string. [Str string]) else parseInline)
       (case v of Inl s \<Rightarrow> split_lines s | Inr ls \<Rightarrow> ls) 0"

text \<open>
  One iteration of the \<open>while\<close> loop of \<open>parseBlock\<close>, on the pair of the index and
  the blocks yielded so far.
\<close>

definition block_step ::
  "(jsstring \<Rightarrow> item list) \<Rightarrow> jsstring list \<Rightarrow> nat \<times> StateNode list \<Rightarrow> nat \<times> StateNode list" where
  "block_step parseInl lines =
     (\<lambda>(idx, out).
        case first_result parsers parseInl lines idx of
          Some result \<Rightarrow> (idx + length_or_1 result, out @ [result])
        | None \<Rightarrow> (idx + 1, out @ [StateNode ''paragraph'' [Str []] (Some 1)]))"


section \<open>Decoration planner (rich-styling-plugin.ts)\<close>

text \<open>
  A node of the syntax tree with its name, its range and its children; the cursor is
  the first range of the selection, \<open>view.state.selection.ranges[0]\<close>.
\<close>

datatype syntaxnode =
  SyntaxNode (name: string) (nfrom: nat) (nto: nat) (children: "syntaxnode list")

record selrange =
  sfrom :: nat
  sto :: nat

datatype deco =
  decorationHidden | decorationBullet | decorationCode | decorationHeading
  | decorationEmphasis | decorationStrong | decorationInlineCode | decorationLink
  | decorationStrikethrough | decorationBlockquote | decorationHorizontalRule

text \<open>\<open>decoration.range(from, to)\<close>\<close>

type_synonym drange = "deco \<times> nat \<times> nat"

definition richElements :: "string list" where
  "richElements =
     [''InlineCode'', ''Emphasis'', ''StrongEmphasis'', ''FencedCode'', ''Link'',
      ''ATXHeading1'', ''ATXHeading2'', ''ATXHeading3'', ''ATXHeading4'', ''ATXHeading5'',
      ''ATXHeading6'', ''Strikethrough'', ''HorizontalRule'', ''Blockquote'']"

text \<open>
  Modelled from the library's documentation: \<open>node.matchContext(context)\<close> of
  @lezer/common, which is not part of the repository. The names of \<open>context\<close> are
  compared with the names of the direct ancestors, the last with the parent; an empty
  name matches every ancestor. \<open>ancestors\<close> lists the ancestors' names, the parent first.
\<close>

fun matchContext_rev :: "string list \<Rightarrow> string list \<Rightarrow> bool" where
  "matchContext_rev ancestors [] = True"
| "matchContext_rev [] (c # cs) = False"
| "matchContext_rev (a # ancestors) (c # cs) =
     ((c = [] \<or> c = a) \<and> matchContext_rev ancestors cs)"

definition matchContext :: "string list \<Rightarrow> string list \<Rightarrow> bool" where
  "matchContext ancestors context = matchContext_rev ancestors (rev context)"

text \<open>
  The callback \<open>enter\<close> of \<open>process\<close>: the decorations it pushes on \<open>widgets\<close> for one
  node, and whether the iteration goes on into the node's children (the callback
  returns \<open>false\<close> to skip them and nothing otherwise).
\<close>

definition enter :: "bool \<Rightarrow> selrange \<Rightarrow> string list \<Rightarrow> syntaxnode \<Rightarrow> drange list \<times> bool" where
  "enter wysiwygMode cursor ancestors node =
     (let cursorInNode = (nfrom node \<le> sfrom cursor \<and> sto cursor \<le> nto node);
          shouldHideSyntax = (wysiwygMode \<or> \<not> cursorInNode);
          n = name node;
          range = (\<lambda>d. [(d, nfrom node, nto node)]);
          widgets =
            (if n = ''FencedCode'' then range decorationCode
             else if n \<in> set [''ATXHeading1'', ''ATXHeading2'', ''ATXHeading3'', ''ATXHeading4'',
                                ''ATXHeading5'', ''ATXHeading6'']
               then (if shouldHideSyntax then range decorationHeading else [])
             else if n = ''Emphasis''
               then (if shouldHideSyntax then range decorationEmphasis else [])
             else if n = ''StrongEmphasis''
               then (if shouldHideSyntax then range decorationStrong else [])
             else if n = ''InlineCode''
               then (if shouldHideSyntax then range decorationInlineCode else [])
             else if n \<in> set [''Link'', ''Autolink'']
               then (if shouldHideSyntax then range decorationLink else [])
             else if n = ''Strikethrough''
               then (if shouldHideSyntax then range decorationStrikethrough else [])
             else if n = ''Blockquote''
               then (if shouldHideSyntax then range decorationBlockquote else [])
             else if n = ''HorizontalRule'' then range decorationHorizontalRule
             else if n = ''ListMark''
               then (if matchContext ancestors [''BulletList'', ''ListItem''] \<and>
                        (wysiwygMode \<or>
                         (sfrom cursor \<noteq> nfrom node \<and> sfrom cursor \<noteq> nfrom node + 1))
                     then range decorationBullet else [])
             else if n = ''HeaderMark''
               then (if shouldHideSyntax then range decorationHidden else [])
             else if n \<in> set [''EmphasisMark'', ''CodeMark'', ''LinkMark'', ''QuoteMark'',
                                ''TaskMarker'', ''TableDelimiter'']
               then (if shouldHideSyntax then range decorationHidden else [])
             else if n = ''URL''
               then (if shouldHideSyntax then range decorationHidden else [])
             else [])
      in (widgets, \<not> (n \<in> set richElements \<and> cursorInNode \<and> \<not> wysiwygMode)))"

text \<open>
  Modelled from the library's documentation: \<open>tree.iterate({from, to, enter})\<close> of
  @lezer/common. \<open>enter\<close> is called for every node that touches the range, a parent
  before its children, and the children of a node for which it returns \<open>false\<close> are
  not visited.
\<close>

fun iterate ::
  "(string list \<Rightarrow> syntaxnode \<Rightarrow> drange list \<times> bool) \<Rightarrow> nat \<Rightarrow> nat \<Rightarrow> string list \<Rightarrow>
     syntaxnode \<Rightarrow> drange list" where
  "iterate ent f t ancestors (SyntaxNode nm a b cs) =
     (if a \<le> t \<and> f \<le> b then
        (case ent ancestors (SyntaxNode nm a b cs) of
           (widgets, descend) \<Rightarrow>
             widgets @
             (if descend then concat (map (iterate ent f t (nm # ancestors)) cs) else []))
      else [])"

text \<open>
  The editor view as \<open>process\<close> reads it: the visible ranges, the cursor and the syntax
  tree of the state.
\<close>

record view =
  visibleRanges :: "(nat \<times> nat) list"
  cursor :: selrange
  tree :: syntaxnode

text \<open>
  \<open>RichStylingPlugin.process(view)\<close>, with the field \<open>wysiwygMode\<close> as an argument: the
  list \<open>widgets\<close> that is handed to \<open>Decoration.set\<close>. \<open>process_with\<close> leaves the
  iteration over the tree open; \<open>process\<close> uses the library's.
\<close>

definition process_with ::
  "((string list \<Rightarrow> syntaxnode \<Rightarrow> drange list \<times> bool) \<Rightarrow> nat \<Rightarrow> nat \<Rightarrow> string list \<Rightarrow>
      syntaxnode \<Rightarrow> drange list) \<Rightarrow> bool \<Rightarrow> view \<Rightarrow> drange list" where
  "process_with iter wysiwygMode v =
     concat (map (\<lambda>(f, t). iter (enter wysiwygMode (cursor v)) f t [] (tree v))
                 (visibleRanges v))"

abbreviation "process \<equiv> process_with iterate"


section \<open>Evaluation rules\<close>

text \<open>
  Equations that unfold the recursive functions one step at a time, guarded so that the
  simplifier can run the parsers on a concrete input.
\<close>

lemma parseInline_loop_unfold:
  "parseInline_loop state =
     (if index state < length (string state)
      then parseInline_loop (inline_step (\<lambda>a b. parseInline (slice (string state) a b)) state)
      else tokens state)"
  by (subst parseInline_loop.simps) (simp add: parseInline_def)

lemma find_upt:
  "find P [a ..< b] = (if a < b then (if P a then Some a else find P [Suc a ..< b]) else None)"
  by (simp add: upt_rec [of a b])

lemmas ev_inline = parseInline_def parseInline_loop_unfold inline_step_def create_def tryLink_def
  addText_def matchChars_def findCloseIndex_def findCloseIndexSimple_def find_upt
  substring_def slice_def charAt_def WHITESPACE_test_def is_space_def js_def Let_def

lemma join_Cons: "join sep (x # xs) = x @ (if xs = [] then [] else sep @ join sep xs)"
  by (cases xs) simp_all

lemma serializeState_Nil: "serializeState [] block = []"
  by (subst serializeState.simps) simp

lemma serializeState_Cons:
  "serializeState (x # xs) block =
     (case x of Str s \<Rightarrow> s | Node n \<Rightarrow> serializeState (content n) block) @
     (if xs = [] then [] else (if block then [10] else []) @ serializeState xs block)"
  by (subst serializeState.simps, subst (2) serializeState.simps) (simp add: join_Cons)

lemma parseBlock_from_step:
  "idx < length lines \<Longrightarrow>
     parseBlock_from parseInl lines idx =
       (case first_result parsers parseInl lines idx of
          Some result \<Rightarrow> result # parseBlock_from parseInl lines (idx + length_or_1 result)
        | None \<Rightarrow>
            StateNode ''paragraph'' [Str []] (Some 1) # parseBlock_from parseInl lines (idx + 1))"
  by (subst parseBlock_from.simps) simp

lemma parseBlock_from_end:
  "\<not> idx < length lines \<Longrightarrow> parseBlock_from parseInl lines idx = []"
  by (subst parseBlock_from.simps) simp

lemmas ev_block = parseBlock_def parseBlock_from_step parseBlock_from_end parsers_def
  matchLine_def codeBlock_def
  paragraphRule_def findClosingLine_def OPEN_def CLOSE_test_def HEADING_def HR_def TODO_ITEM_def
  ORDERED_ITEM_def UNORDERED_ITEM_def BLOCKQUOTE_def trim_def is_digit_def is_line_terminator_def
  length_or_1_def serializeState_Nil serializeState_Cons


section \<open>Properties of the inline parser\<close>

text \<open>The ten rules built by \<open>create\<close>, in the order in which \<open>parseInline\<close> tries
  them after \<open>tryLink\<close>: the arguments of each \<open>create(...)\<close>.\<close>

definition inline_rules :: "(chars_spec list \<times> string \<times> bool \<times> bool) list" where
  "inline_rules =
     [([Same (js ''**''), Same (js ''__'')], ''strong'', True, False),
      ([Same (js ''*''), Same (js ''_'')], ''em'', True, False),
      ([Same (js ''~~'')], ''strikethrough'', True, False),
      ([Same (js ''~'')], ''underline'', True, False),
      ([Same (js ''::'')], ''mark'', True, False),
      ([OpenClose (js ''[['') (js '']]'')], ''reference'', True, False),
      ([Same [96]], ''code'', False, False),
      ([OpenClose (js ''[file:'') (js '']'')], ''file'', False, False),
      ([OpenClose (js ''[image:'') (js '']'')], ''image'', False, False),
      ([Same (js ''#'')], ''tag'', False, True)]"

lemma inline_step_rule_cases:
  assumes "\<And>s. tryLink state = Some s \<Longrightarrow> P s"
    and "\<And>CHARS ty rich req s. create CHARS ty rich req parse state = Some s \<Longrightarrow>
           (CHARS, ty, rich, req) \<in> set inline_rules \<Longrightarrow> P s"
    and "P (addText state)"
  shows "P (inline_step parse state)"
  unfolding inline_step_def
  by (intro case_option_cases [where P = P] assms(3);
      (rule assms(1), assumption | rule assms(2), assumption, simp add: inline_rules_def))

text \<open>All nodes of a token list, those nested in the content of other nodes included.\<close>

function all_nodes :: "item list \<Rightarrow> StateNode list" where
  "all_nodes list =
     concat (map (\<lambda>i. case i of Str s \<Rightarrow> [] | Node n \<Rightarrow> n # all_nodes (content n)) list)"
  by pat_completeness auto
termination
proof (relation "measure (size_list size)", goal_cases)
  case 1
  show ?case by simp
next
  case (2 list i n)
  have "size_list size (content n) < size (Node n)"
    by (cases n) simp
  with size_item_in_list [OF 2(1)] 2(2) show ?case by simp
qed

declare all_nodes.simps [simp del]

lemma all_nodes_Nil [simp]: "all_nodes [] = []"
  by (subst all_nodes.simps) simp

lemma all_nodes_Cons:
  "all_nodes (x # xs) =
     (case x of Str s \<Rightarrow> [] | Node n \<Rightarrow> n # all_nodes (content n)) @ all_nodes xs"
  by (subst all_nodes.simps, subst (3) all_nodes.simps) simp

lemma all_nodes_Str [simp]: "all_nodes (Str s # xs) = all_nodes xs"
  by (simp add: all_nodes_Cons)

lemma all_nodes_Node [simp]: "all_nodes (Node n # xs) = n # all_nodes (content n) @ all_nodes xs"
  by (simp add: all_nodes_Cons)

lemma all_nodes_append [simp]: "all_nodes (xs @ ys) = all_nodes xs @ all_nodes ys"
  by (induction xs) (simp_all add: all_nodes_Cons)

lemma all_nodes_addText: "all_nodes (tokens (addText state)) = all_nodes (tokens state)"
proof (cases "tokens state = []")
  case True
  then show ?thesis by (simp add: addText_def Let_def)
next
  case False
  then obtain ts t where ts: "tokens state = ts @ [t]"
    by (metis append_butlast_last_id)
  show ?thesis
    by (cases t) (simp_all add: addText_def Let_def ts butlast_append)
qed

lemma tryLink_tokens:
  assumes "tryLink state = Some s"
  shows "\<exists>t u. tokens s = tokens state @
     [Node (StateNode ''link'' [Str [91], Str t, Str [93], Str [40], Str u, Str [41]] None)]"
  using assms unfolding tryLink_def Let_def
  by (auto split: option.splits if_splits)

text \<open>What holds of every tag node: its content is \<open>#\<close>, a text and \<open>#\<close>, the text
  is not empty and neither starts nor ends with white space.\<close>

definition tag_inv :: "StateNode \<Rightarrow> bool" where
  "tag_inv n \<longleftrightarrow>
     (type n = ''tag'' \<longrightarrow>
        (\<exists>c. content n = [Str (js ''#''), Str c, Str (js ''#'')]
           \<and> c \<noteq> [] \<and> \<not> is_space (hd c) \<and> \<not> is_space (last c)))"

lemma slice_nonempty:
  assumes "a < b" "b \<le> length s"
  shows "slice s a b \<noteq> []" "hd (slice s a b) = s ! a" "last (slice s a b) = s ! (b - 1)"
proof -
  from assms show "slice s a b \<noteq> []" by (simp add: slice_def)
  from assms show "hd (slice s a b) = s ! a"
    by (simp add: slice_def hd_drop_conv_nth)
  let ?t = "take (b - a) (drop a s)"
  from assms have l: "length ?t = b - a" and ne: "?t \<noteq> []" by simp_all
  from ne have "last ?t = ?t ! (length ?t - 1)" by (rule last_conv_nth)
  also from assms have "\<dots> = drop a s ! (b - a - 1)" by (simp add: l)
  also from assms have "\<dots> = s ! (a + (b - a - 1))" by (intro nth_drop) simp
  also from assms have "a + (b - a - 1) = b - 1" by simp
  finally show "last (slice s a b) = s ! (b - 1)" by (simp add: slice_def)
qed

lemma tryTag_ok:
  assumes "create [Same (js ''#'')] ty False True parse state = Some s"
  shows "\<exists>c. tokens s = tokens state @ [Node (StateNode ty [Str (js ''#''), Str c, Str (js ''#'')] None)]
           \<and> c \<noteq> [] \<and> \<not> is_space (hd c) \<and> \<not> is_space (last c)"
proof -
  from assms obtain char nextChar closeIndex where
    m: "matchChars [Same (js ''#'')] state (index state) = Some char" and
    nc: "charAt (string state) (index state + length (opn char)) = Some nextChar"
      "\<not> is_space nextChar" and
    f: "findCloseIndex state (cls char) = Some closeIndex" and
    ne: "\<not> (True \<and> closeIndex = index state + length (opn char))" and
    s: "s = state
       \<lparr>tokens := tokens state @
          [Node (StateNode ty
             ([Str (opn char)] @
              (if False then parse (index state + length (opn char)) closeIndex
               else [Str (slice (string state) (index state + length (opn char)) closeIndex)]) @
              [Str (cls char)]) None)],
        index := closeIndex + length (cls char)\<rparr>"
    by (rule create_Some)
  from matchChars_Some [OF m] have char: "opn char = js ''#''" "cls char = js ''#''"
    by simp_all
  have len: "length (js ''#'') = 1" by (simp add: js_def)
  let ?a = "index state + 1"
  from findCloseIndex_Some(1,2,5) [OF f] ne char len
  have b: "?a < closeIndex" "closeIndex \<le> length (string state)"
    "\<not> WHITESPACE_test (charAt (string state) (closeIndex - 1))"
    by simp_all
  from nc char len b have hd: "\<not> is_space (string state ! ?a)"
    by (simp add: charAt_def split: if_splits)
  from b have last: "\<not> is_space (string state ! (closeIndex - 1))"
    by (simp add: WHITESPACE_test_def charAt_def split: if_splits)
  from slice_nonempty [OF b(1,2)] hd last s char len show ?thesis
    by simp
qed

lemma inline_step_tags:
  assumes inv: "list_all tag_inv (all_nodes (tokens state))"
    and sub: "\<And>a b. b < length (string state) \<Longrightarrow> list_all tag_inv (all_nodes (parse a b))"
  shows "list_all tag_inv (all_nodes (tokens (inline_step parse state)))"
proof (rule inline_step_rule_cases)
  fix s assume "tryLink state = Some s"
  from tryLink_tokens [OF this] inv show "list_all tag_inv (all_nodes (tokens s))"
    by (auto simp: tag_inv_def)
next
  show "list_all tag_inv (all_nodes (tokens (addText state)))"
    by (simp add: all_nodes_addText inv)
next
  fix CHARS ty rich req s
  assume c: "create CHARS ty rich req parse state = Some s"
    and r: "(CHARS, ty, rich, req) \<in> set inline_rules"
  show "list_all tag_inv (all_nodes (tokens s))"
  proof (cases "ty = ''tag''")
    case True
    with r have "CHARS = [Same (js ''#'')]" "rich = False" "req = True"
      by (simp_all add: inline_rules_def)
    with c True have "create [Same (js ''#'')] ''tag'' False True parse state = Some s"
      by simp
    from tryTag_ok [OF this] inv show ?thesis
      by (auto simp: tag_inv_def)
  next
    case False
    from c obtain char nextChar closeIndex where
      "matchChars CHARS state (index state) = Some char"
      "charAt (string state) (index state + length (opn char)) = Some nextChar"
      "\<not> is_space nextChar" and
      f: "findCloseIndex state (cls char) = Some closeIndex" and
      "\<not> (req \<and> closeIndex = index state + length (opn char))" and
      s: "s = state
       \<lparr>tokens := tokens state @
          [Node (StateNode ty
             ([Str (opn char)] @
              (if rich then parse (index state + length (opn char)) closeIndex
               else [Str (slice (string state) (index state + length (opn char)) closeIndex)]) @
              [Str (cls char)]) None)],
        index := closeIndex + length (cls char)\<rparr>"
      by (rule create_Some)
    from findCloseIndex_Some(2) [OF f]
    have "list_all tag_inv (all_nodes (parse (index state + length (opn char)) closeIndex))"
      by (rule sub)
    with inv False s show ?thesis
      by (simp add: tag_inv_def)
  qed
qed

lemma parseInline_loop_tags:
  "list_all tag_inv (all_nodes (tokens state)) \<Longrightarrow>
     list_all tag_inv (all_nodes (parseInline_loop state))"
proof (induction state rule: parseInline_loop.induct)
  case (1 state)
  show ?case
  proof (cases "index state < length (string state)")
    case False
    with 1(3) show ?thesis
      by (subst parseInline_loop.simps) simp
  next
    case True
    let ?parse = "\<lambda>a b. parseInline_loop \<lparr>index = 0, string = slice (string state) a b, tokens = []\<rparr>"
    have "list_all tag_inv (all_nodes (tokens (inline_step ?parse state)))"
    proof (rule inline_step_tags [OF 1(3)])
      fix a b assume "b < length (string state)"
      from 1(1) [OF True this] show "list_all tag_inv (all_nodes (?parse a b))"
        by simp
    qed
    from 1(2) [OF True this] True show ?thesis
      by (subst parseInline_loop.simps) simp
  qed
qed


section \<open>Properties of the block parser\<close>

lemma trim_Nil_iff: "trim s = [] \<longleftrightarrow> list_all is_space s"
proof -
  have "dropWhile is_space (rev (dropWhile is_space s)) = [] \<longleftrightarrow> dropWhile is_space s = []"
    by (metis dropWhile_eq_Nil_conv hd_dropWhile list.set_sel(1) rev_is_Nil_conv set_rev
        dropWhile.simps(1))
  then show ?thesis
    by (simp add: trim_def list_all_iff dropWhile_eq_Nil_conv)
qed

lemma not_space_marks [simp]:
  "\<not> is_space 96" "\<not> is_space 35" "\<not> is_space 45" "\<not> is_space 42" "\<not> is_space 95"
  "\<not> is_space 62"
  by (simp_all add: is_space_def)

lemma blank_first_result:
  assumes "list_all is_space (lines ! idx)"
  shows "first_result parsers parseInl lines idx = None"
proof -
  let ?l = "lines ! idx"
  from assms have dw: "dropWhile is_space ?l = []"
    by (simp add: dropWhile_eq_Nil_conv list_all_iff)
  have hd: "\<And>c. \<not> is_space c \<Longrightarrow> c \<notin> set ?l"
    using assms by (auto simp: list_all_iff)
  have open_none: "OPEN ?l = None"
    using hd [of 96] by (cases ?l) (auto simp: OPEN_def)
  have heading: "HEADING ?l = None"
    using hd [of 35] by (cases ?l) (auto simp: HEADING_def Let_def)
  have hr: "HR ?l = None"
    using hd [of 45] hd [of 42] hd [of 95] by (cases ?l) (auto simp: HR_def)
  have others: "TODO_ITEM ?l = None" "ORDERED_ITEM ?l = None" "UNORDERED_ITEM ?l = None"
    by (simp_all add: TODO_ITEM_def ORDERED_ITEM_def UNORDERED_ITEM_def dw js_def)
  have bq: "BLOCKQUOTE ?l = None"
    using hd [of 62] by (cases ?l) (auto simp: BLOCKQUOTE_def js_def)
  show ?thesis
    using assms
    by (simp add: parsers_def codeBlock_def matchLine_def paragraphRule_def trim_Nil_iff
        open_none heading hr others bq)
qed

lemma first_result_None_iff:
  "first_result parsers parseInl lines idx = None \<longleftrightarrow> trim (lines ! idx) = []"
proof
  assume "first_result parsers parseInl lines idx = None"
  then have "paragraphRule parseInl lines idx = None"
    by (simp add: parsers_def split: option.splits)
  then show "trim (lines ! idx) = []"
    by (simp add: paragraphRule_def Let_def split: if_splits)
next
  assume "trim (lines ! idx) = []"
  then show "first_result parsers parseInl lines idx = None"
    by (simp add: trim_Nil_iff blank_first_result)
qed

lemma find_upt_Some:
  assumes "find P [a ..< b] = Some n"
  shows "a \<le> n" "n < b" "P n" "\<And>m. a \<le> m \<Longrightarrow> m < n \<Longrightarrow> \<not> P m"
proof -
  from assms obtain i where i: "i < length [a ..< b]" "P ([a ..< b] ! i)" "n = [a ..< b] ! i"
    and least: "\<And>j. j < i \<Longrightarrow> \<not> P ([a ..< b] ! j)"
    unfolding find_Some_iff by blast
  from i have n: "n = a + i" and ib: "a + i < b" by simp_all
  from n show "a \<le> n" by simp
  from n ib show "n < b" by simp
  from i show "P n" by simp
  fix m assume m: "a \<le> m" "m < n"
  then have "m - a < i" using n by simp
  from least [OF this] m n ib show "\<not> P m" by simp
qed

lemma find_upt_None: "find P [a ..< b] = None \<longleftrightarrow> (\<forall>n. a \<le> n \<and> n < b \<longrightarrow> \<not> P n)"
  by (auto simp: find_None_iff)

lemma findClosingLine_Some:
  assumes "findClosingLine lines idx = Some c"
  shows "idx + 1 \<le> c" "c < length lines" "CLOSE_test (lines ! c)"
  using find_upt_Some(1,2,3) [OF assms [unfolded findClosingLine_def]] by simp_all

lemma matchLine_Some:
  "matchLine regex ty parseInl lines idx = Some r \<Longrightarrow> type r = ty \<and> length_opt r = Some 1"
  by (auto simp: matchLine_def Let_def split: option.splits)

lemma codeBlock_Some:
  "codeBlock parseInl lines idx = Some r \<Longrightarrow>
     \<exists>c. findClosingLine lines idx = Some c \<and> type r = ''code_block''
       \<and> length_opt r = Some (c - idx + 1)"
  by (auto simp: codeBlock_def Let_def split: option.splits)

lemma paragraphRule_Some:
  "paragraphRule parseInl lines idx = Some r \<Longrightarrow> type r = ''paragraph'' \<and> length_opt r = Some 1"
  by (auto simp: paragraphRule_def Let_def split: if_splits)

lemma first_result_cases:
  assumes "first_result parsers parseInl lines idx = Some r"
  shows "codeBlock parseInl lines idx = Some r
    \<or> (codeBlock parseInl lines idx = None \<and> length_opt r = Some 1)"
  using assms
  by (auto simp: parsers_def split: option.splits dest!: matchLine_Some paragraphRule_Some)

lemma first_result_length:
  assumes "first_result parsers parseInl lines idx = Some r" "idx < length lines"
  shows "1 \<le> length_or_1 r \<and> idx + length_or_1 r \<le> length lines"
  using first_result_cases [OF assms(1)] assms(2)
proof (elim disjE conjE)
  assume "codeBlock parseInl lines idx = Some r"
  from codeBlock_Some [OF this] obtain c where
    c: "findClosingLine lines idx = Some c" "length_opt r = Some (c - idx + 1)" by blast
  from findClosingLine_Some(1,2) [OF c(1)] c(2) show ?thesis
    by (simp add: length_or_1_def)
next
  assume "length_opt r = Some 1"
  with assms(2) show ?thesis by (simp add: length_or_1_def)
qed

lemma sum_parseBlock_from:
  "idx \<le> length lines \<Longrightarrow>
     sum_list (map length_or_1 (parseBlock_from parseInl lines idx)) = length lines - idx"
proof (induction parseInl lines idx rule: parseBlock_from.induct)
  case (1 parseInl lines idx)
  show ?case
  proof (cases "idx < length lines")
    case False
    with 1(3) show ?thesis by (simp add: parseBlock_from_end)
  next
    case True
    show ?thesis
    proof (cases "first_result parsers parseInl lines idx")
      case None
      from True have "idx + 1 \<le> length lines" by simp
      moreover have "length_or_1 (StateNode ''paragraph'' [Str []] (Some 1)) = 1"
        by (simp add: length_or_1_def)
      ultimately show ?thesis
        using 1(1) [OF True None] True None by (simp add: parseBlock_from_step)
    next
      case (Some r)
      note len = first_result_length [OF Some True]
      from 1(2) [OF True Some] len True Some show ?thesis
        by (simp add: parseBlock_from_step)
    qed
  qed
qed

lemma length_split_lines: "length (split_lines s) = Suc (length (filter (\<lambda>c. c = 10) s))"
  by (induction s) (auto split: list.splits)


lemma unterminated_fence_is_paragraph:
  assumes "OPEN (lines ! idx) \<noteq> None" "findClosingLine lines idx = None"
  shows "first_result parsers parseInl lines idx =
           Some (StateNode ''paragraph'' (parseInl (lines ! idx)) (Some 1))"
proof -
  from assms(1) obtain r where line: "lines ! idx = 96 # 96 # 96 # r"
    by (cases "lines ! idx" rule: list.exhaust; simp add: OPEN_def split: if_splits)
       (metis (no_types, lifting) append_Cons append_Nil append_take_drop_id)
  have "trim (lines ! idx) \<noteq> []"
    by (simp add: trim_Nil_iff line)
  then show ?thesis
    using assms(2)
    by (simp add: parsers_def codeBlock_def matchLine_def paragraphRule_def line HEADING_def
        HR_def TODO_ITEM_def ORDERED_ITEM_def UNORDERED_ITEM_def BLOCKQUOTE_def js_def Let_def
        is_digit_def split: option.splits)
qed


section \<open>Symmetric markers (parser.ts)\<close>

text \<open>
  The words of the matching rule for symmetric markers, as predicates on the scanner state:
  the marker \<open>m\<close> stands at position \<open>i\<close>; \<open>n\<close> is a valid closer (an occurrence of \<open>m\<close>
  behind the opening marker whose preceding code unit is not white space); \<open>n\<close> is the
  nearest valid closer; the marker at the index opens validly (it stands there, the code
  unit behind it exists and is not white space, and a valid closer exists). \<open>push_node\<close>
  is the state after a rule has pushed its node: content \<open>m\<close>, inner content, \<open>m\<close>, and
  the index behind the closing marker. The lemmas below relate them to
  \<open>findCloseIndex\<close>, \<open>matchChars\<close> and \<open>create\<close>.
\<close>

definition stands_at :: "jsstring \<Rightarrow> nat \<Rightarrow> jsstring \<Rightarrow> bool" where
  "stands_at s i m \<longleftrightarrow> take (length m) (drop i s) = m"

definition valid_closer :: "istate \<Rightarrow> jsstring \<Rightarrow> nat \<Rightarrow> bool" where
  "valid_closer state m n \<longleftrightarrow>
     index state + length m \<le> n \<and> stands_at (string state) n m
     \<and> \<not> is_space (string state ! (n - 1))"

definition nearest_closer :: "istate \<Rightarrow> jsstring \<Rightarrow> nat \<Rightarrow> bool" where
  "nearest_closer state m n \<longleftrightarrow>
     valid_closer state m n \<and> list_all (\<lambda>k. \<not> valid_closer state m k) [0 ..< n]"

definition opens_validly :: "istate \<Rightarrow> jsstring \<Rightarrow> bool" where
  "opens_validly state m \<longleftrightarrow>
     stands_at (string state) (index state) m
     \<and> index state + length m < length (string state)
     \<and> \<not> is_space (string state ! (index state + length m))
     \<and> list_ex (valid_closer state m) [0 ..< length (string state)]"

definition push_node :: "istate \<Rightarrow> string \<Rightarrow> jsstring \<Rightarrow> item list \<Rightarrow> nat \<Rightarrow> istate" where
  "push_node state ty m inner n =
     state\<lparr>tokens := tokens state @ [Node (StateNode ty ([Str m] @ inner @ [Str m]) None)],
           index := n + length m\<rparr>"

lemma substring_stands: "substring s i (i + length m) = m \<longleftrightarrow> stands_at s i m"
  by (simp add: substring_def stands_at_def)

lemma stands_at_bound:
  assumes "stands_at s i m" "m \<noteq> []"
  shows "i + length m \<le> length s" "i < length s" "s ! i = hd m"
proof -
  from assms(1) have "length (take (length m) (drop i s)) = length m"
    by (simp add: stands_at_def)
  with assms(2) show l: "i + length m \<le> length s" and "i < length s"
    by (cases m; simp add: min_def split: if_splits)+
  from assms have "hd (take (length m) (drop i s)) = hd m"
    by (simp add: stands_at_def)
  with assms(2) l show "s ! i = hd m"
    by (cases m) (simp_all add: hd_drop_conv_nth)
qed

lemma valid_closer_code:
  assumes "m \<noteq> []"
  shows "valid_closer state m n \<longleftrightarrow>
     index state + length m \<le> n \<and> n < length (string state)
     \<and> substring (string state) n (n + length m) = m
     \<and> \<not> WHITESPACE_test (charAt (string state) (n - 1))"
  using stands_at_bound(2) [OF _ assms, of "string state" n]
  by (auto simp: valid_closer_def substring_stands WHITESPACE_test_def charAt_def)

lemma findCloseIndex_nearest:
  assumes "m \<noteq> []"
  shows "findCloseIndex state m = Some n \<longleftrightarrow> nearest_closer state m n"
proof
  assume f: "findCloseIndex state m = Some n"
  note fs = find_upt_Some [OF f [unfolded findCloseIndex_def]]
  from fs(1,2,3) have v: "valid_closer state m n"
    by (simp add: valid_closer_code [OF assms])
  have "\<not> valid_closer state m k" if "k < n" for k
  proof (cases "index state + length m \<le> k")
    case True
    from fs(4) [OF True that] fs(2) that show ?thesis
      by (auto simp: valid_closer_code [OF assms])
  next
    case False
    then show ?thesis by (simp add: valid_closer_def)
  qed
  with v show "nearest_closer state m n"
    by (simp add: nearest_closer_def list_all_iff)
next
  assume n: "nearest_closer state m n"
  then have v: "valid_closer state m n" and least: "\<And>k. k < n \<Longrightarrow> \<not> valid_closer state m k"
    by (simp_all add: nearest_closer_def list_all_iff)
  show "findCloseIndex state m = Some n"
  proof (cases "findCloseIndex state m")
    case None
    then have "\<not> valid_closer state m n"
      unfolding findCloseIndex_def find_upt_None
      by (auto simp: valid_closer_code [OF assms])
    with v show ?thesis by simp
  next
    case (Some k)
    note fs = find_upt_Some [OF Some [unfolded findCloseIndex_def]]
    from fs(1,2,3) have vk: "valid_closer state m k"
      by (simp add: valid_closer_code [OF assms])
    with least have "\<not> k < n" by blast
    moreover have "\<not> n < k"
    proof
      assume "n < k"
      from v have "index state + length m \<le> n" by (simp add: valid_closer_def)
      from fs(4) [OF this \<open>n < k\<close>] v show False
        by (simp add: valid_closer_code [OF assms])
    qed
    ultimately show ?thesis using Some by simp
  qed
qed

lemma findCloseIndex_None:
  assumes "m \<noteq> []"
  shows "findCloseIndex state m = None \<longleftrightarrow>
     \<not> list_ex (valid_closer state m) [0 ..< length (string state)]"
  unfolding findCloseIndex_def find_upt_None
  by (auto simp: valid_closer_code [OF assms] list_ex_iff)


lemma matchChars_only:
  assumes "Same m \<in> set CHARS"
    and "\<And>c. c \<in> set CHARS \<Longrightarrow>
           c = Same m \<or> \<not> stands_at (string state) (index state) (opn (getChars c))"
  shows "matchChars CHARS state (index state) =
           (if stands_at (string state) (index state) m then Some \<lparr>opn = m, cls = m\<rparr> else None)"
  using assms unfolding matchChars_def
proof (induction CHARS)
  case Nil
  then show ?case by simp
next
  case (Cons c CHARS)
  show ?case
  proof (cases "c = Same m")
    case True
    show ?thesis
    proof (cases "stands_at (string state) (index state) m")
      case s: True
      with True show ?thesis by (simp add: substring_stands)
    next
      case False
      have "find (\<lambda>chars2. substring (string state) (index state)
                (index state + length (opn chars2)) = opn chars2) (map getChars CHARS) = None"
        using Cons.prems(2) False
        by (fastforce simp: find_None_iff substring_stands)
      with True False show ?thesis by (simp add: substring_stands)
    qed
  next
    case False
    with Cons.prems have "Same m \<in> set CHARS"
      and "\<not> stands_at (string state) (index state) (opn (getChars c))"
      by auto
    with Cons.IH Cons.prems(2) show ?thesis
      by (simp add: substring_stands)
  qed
qed

lemma create_at_marker:
  assumes mc: "matchChars CHARS state (index state) =
           (if stands_at (string state) (index state) m then Some \<lparr>opn = m, cls = m\<rparr> else None)"
    and ne: "m \<noteq> []"
  shows "(opens_validly state m \<longrightarrow>
            (\<exists>n. nearest_closer state m n \<and>
               create CHARS ty rich False parse state =
                 Some (push_node state ty m
                   (if rich then parse (index state + length m) n
                    else [Str (slice (string state) (index state + length m) n)]) n)))
       \<and> (\<not> opens_validly state m \<longrightarrow> create CHARS ty rich False parse state = None)"
proof (intro conjI impI)
  assume v: "opens_validly state m"
  then have st: "stands_at (string state) (index state) m"
    and nx: "index state + length m < length (string state)"
      "\<not> is_space (string state ! (index state + length m))"
    and ex: "list_ex (valid_closer state m) [0 ..< length (string state)]"
    by (simp_all add: opens_validly_def)
  from ex have "findCloseIndex state m \<noteq> None"
    by (simp add: findCloseIndex_None [OF ne])
  then obtain n where f: "findCloseIndex state m = Some n" by blast
  then have "nearest_closer state m n"
    by (simp add: findCloseIndex_nearest [OF ne])
  moreover from st nx f mc
  have "create CHARS ty rich False parse state =
      Some (push_node state ty m
        (if rich then parse (index state + length m) n
         else [Str (slice (string state) (index state + length m) n)]) n)"
    by (simp add: create_def charAt_def push_node_def)
  ultimately show "\<exists>n. nearest_closer state m n \<and>
      create CHARS ty rich False parse state =
        Some (push_node state ty m
          (if rich then parse (index state + length m) n
           else [Str (slice (string state) (index state + length m) n)]) n)"
    by blast
next
  assume nv: "\<not> opens_validly state m"
  show "create CHARS ty rich False parse state = None"
  proof (cases "stands_at (string state) (index state) m")
    case False
    with mc show ?thesis by (simp add: create_def)
  next
    case True
    with nv have "\<not> (index state + length m < length (string state)
        \<and> \<not> is_space (string state ! (index state + length m)))
      \<or> findCloseIndex state m = None"
      by (auto simp: opens_validly_def findCloseIndex_None [OF ne])
    with True mc show ?thesis
      by (auto simp: create_def charAt_def split: option.splits)
  qed
qed

lemma create_no_marker:
  assumes "index state < length (string state)"
    and "\<And>c. c \<in> set CHARS \<Longrightarrow>
           opn (getChars c) \<noteq> [] \<and> hd (opn (getChars c)) \<noteq> string state ! index state"
  shows "create CHARS ty rich req parse state = None"
proof -
  have "matchChars CHARS state (index state) = None"
    unfolding matchChars_def find_None_iff
    using assms(2) stands_at_bound(3) [of "string state" "index state"]
    by (fastforce simp: substring_stands)
  then show ?thesis by (simp add: create_def)
qed

lemma tryLink_no_bracket:
  "index state < length (string state) \<Longrightarrow> string state ! index state \<noteq> 91 \<Longrightarrow>
     tryLink state = None"
  by (simp add: tryLink_def charAt_def)

lemma not_stands_other:
  "index state < length (string state) \<Longrightarrow> m \<noteq> [] \<Longrightarrow> hd m \<noteq> string state ! index state \<Longrightarrow>
     \<not> stands_at (string state) (index state) m"
  using stands_at_bound(3) [of "string state" "index state" m] by auto


lemma take2_take1:
  assumes "take (length [c, c]) xs = [c, c]"
  shows "take (length [c]) xs = [c]" "xs ! 1 = c"
proof -
  from assms have "take 1 (take (length [c, c]) xs) = take 1 [c, c]" by (rule arg_cong)
  then show "take (length [c]) xs = [c]" by (simp add: min_def)
  from assms have "take (length [c, c]) xs ! 1 = [c, c] ! 1" by (rule arg_cong)
  then show "xs ! 1 = c" by simp
qed

lemma double_opens_single:
  assumes "opens_validly state [c, c]" "\<not> is_space c"
  shows "opens_validly state [c]"
proof -
  from assms(1) have st: "stands_at (string state) (index state) [c, c]"
    and ex: "list_ex (valid_closer state [c, c]) [0 ..< length (string state)]"
    by (simp_all add: opens_validly_def)
  from stands_at_bound [OF st] have b: "index state + 2 \<le> length (string state)"
    by simp
  from st have two: "take (length [c, c]) (drop (index state) (string state)) = [c, c]"
    unfolding stands_at_def .
  from take2_take1(2) [OF two] b have nxt: "string state ! (index state + 1) = c"
    by simp
  from take2_take1(1) [OF two] have st1: "stands_at (string state) (index state) [c]"
    unfolding stands_at_def .
  from ex obtain n where n: "n < length (string state)" "valid_closer state [c, c] n"
    by (auto simp: list_ex_iff)
  from n(2) have "take (length [c, c]) (drop n (string state)) = [c, c]"
    unfolding valid_closer_def stands_at_def by simp
  from take2_take1(1) [OF this] have "stands_at (string state) n [c]"
    unfolding stands_at_def .
  with n(2) have "valid_closer state [c] n"
    by (simp add: valid_closer_def)
  with n(1) have "list_ex (valid_closer state [c]) [0 ..< length (string state)]"
    by (auto simp: list_ex_iff)
  with st1 b nxt assms(2) show ?thesis
    by (simp add: opens_validly_def)
qed

lemma two_rules_scan:
  assumes step: "inline_step parse state =
      (case create C2 ty2 True False parse state of Some s \<Rightarrow> s
       | None \<Rightarrow> (case create C1 ty1 True False parse state of Some s \<Rightarrow> s
                   | None \<Rightarrow> addText state))"
    and m2: "matchChars C2 state (index state) =
      (if stands_at (string state) (index state) [c, c] then Some \<lparr>opn = [c, c], cls = [c, c]\<rparr>
       else None)"
    and m1: "matchChars C1 state (index state) =
      (if stands_at (string state) (index state) [c] then Some \<lparr>opn = [c], cls = [c]\<rparr>
       else None)"
    and ns: "\<not> is_space c"
  shows "(opens_validly state [c, c] \<longrightarrow>
            (\<exists>n. nearest_closer state [c, c] n \<and>
               inline_step parse state =
                 push_node state ty2 [c, c] (parse (index state + 2) n) n))
       \<and> (\<not> opens_validly state [c, c] \<and> opens_validly state [c] \<longrightarrow>
            (\<exists>n. nearest_closer state [c] n \<and>
               inline_step parse state =
                 push_node state ty1 [c] (parse (index state + 1) n) n))
       \<and> (\<not> opens_validly state [c] \<longrightarrow> inline_step parse state = addText state)"
proof -
  note r2 = create_at_marker [OF m2, of ty2 True parse]
  note r1 = create_at_marker [OF m1, of ty1 True parse]
  show ?thesis
  proof (intro conjI impI)
    assume "opens_validly state [c, c]"
    with r2 obtain n where "nearest_closer state [c, c] n"
      "create C2 ty2 True False parse state =
         Some (push_node state ty2 [c, c] (parse (index state + 2) n) n)"
      by auto
    with step show "\<exists>n. nearest_closer state [c, c] n \<and>
        inline_step parse state = push_node state ty2 [c, c] (parse (index state + 2) n) n"
      by auto
  next
    assume a: "\<not> opens_validly state [c, c] \<and> opens_validly state [c]"
    with r2 have n2: "create C2 ty2 True False parse state = None" by simp
    from a r1 obtain n where "nearest_closer state [c] n"
      "create C1 ty1 True False parse state =
         Some (push_node state ty1 [c] (parse (index state + 1) n) n)"
      by auto
    with step n2 show "\<exists>n. nearest_closer state [c] n \<and>
        inline_step parse state = push_node state ty1 [c] (parse (index state + 1) n) n"
      by auto
  next
    assume a: "\<not> opens_validly state [c]"
    with double_opens_single [OF _ ns] have "\<not> opens_validly state [c, c]" by blast
    with r2 have "create C2 ty2 True False parse state = None" by simp
    moreover from a r1 have "create C1 ty1 True False parse state = None" by simp
    ultimately show "inline_step parse state = addText state"
      using step by simp
  qed
qed

lemma one_rule_scan:
  assumes step: "inline_step parse state =
      (case create C ty rich False parse state of Some s \<Rightarrow> s | None \<Rightarrow> addText state)"
    and m: "matchChars C state (index state) =
      (if stands_at (string state) (index state) m then Some \<lparr>opn = m, cls = m\<rparr> else None)"
    and ne: "m \<noteq> []"
  shows "(opens_validly state m \<longrightarrow>
            (\<exists>n. nearest_closer state m n \<and>
               inline_step parse state =
                 push_node state ty m
                   (if rich then parse (index state + length m) n
                    else [Str (slice (string state) (index state + length m) n)]) n))
       \<and> (\<not> opens_validly state m \<longrightarrow> inline_step parse state = addText state)"
  using create_at_marker [OF m ne, of ty rich parse] step
  by auto


lemma step_two_rules:
  assumes i: "index state < length (string state)"
    and c: "string state ! index state = c" "c = 42 \<or> c = 95"
  shows "inline_step parse state =
      (case tryStrong parse state of Some s \<Rightarrow> s
       | None \<Rightarrow> (case tryEmphasis parse state of Some s \<Rightarrow> s | None \<Rightarrow> addText state))"
proof -
  have l: "tryLink state = None"
    using i c by (auto intro: tryLink_no_bracket)
  have r: "create CHARS ty rich req parse state = None"
    if "\<And>x. x \<in> set CHARS \<Longrightarrow> opn (getChars x) \<noteq> [] \<and> hd (opn (getChars x)) \<noteq> c"
    for CHARS ty rich req
    using create_no_marker [OF i, of CHARS] that c(1) by simp
  have "tryStrikethrough parse state = None" "tryUnderline parse state = None"
    "tryMark parse state = None" "tryReference parse state = None" "tryCode parse state = None"
    "tryFile parse state = None" "tryImage parse state = None" "tryTag parse state = None"
    using c(2) by (auto intro!: r simp: js_def)
  with l show ?thesis by (simp add: inline_step_def split: option.splits)
qed

lemma step_tilde:
  assumes i: "index state < length (string state)"
    and c: "string state ! index state = 126"
  shows "inline_step parse state =
      (case tryStrikethrough parse state of Some s \<Rightarrow> s
       | None \<Rightarrow> (case tryUnderline parse state of Some s \<Rightarrow> s | None \<Rightarrow> addText state))"
proof -
  have l: "tryLink state = None"
    using i c by (auto intro: tryLink_no_bracket)
  have r: "create CHARS ty rich req parse state = None"
    if "\<And>x. x \<in> set CHARS \<Longrightarrow> opn (getChars x) \<noteq> [] \<and> hd (opn (getChars x)) \<noteq> 126"
    for CHARS ty rich req
    using create_no_marker [OF i, of CHARS] that c by simp
  have "tryStrong parse state = None" "tryEmphasis parse state = None"
    "tryMark parse state = None" "tryReference parse state = None" "tryCode parse state = None"
    "tryFile parse state = None" "tryImage parse state = None" "tryTag parse state = None"
    by (auto intro!: r simp: js_def)
  with l show ?thesis by (simp add: inline_step_def split: option.splits)
qed

lemma step_colon:
  assumes i: "index state < length (string state)"
    and c: "string state ! index state = 58"
  shows "inline_step parse state =
      (case tryMark parse state of Some s \<Rightarrow> s | None \<Rightarrow> addText state)"
proof -
  have l: "tryLink state = None"
    using i c by (auto intro: tryLink_no_bracket)
  have r: "create CHARS ty rich req parse state = None"
    if "\<And>x. x \<in> set CHARS \<Longrightarrow> opn (getChars x) \<noteq> [] \<and> hd (opn (getChars x)) \<noteq> 58"
    for CHARS ty rich req
    using create_no_marker [OF i, of CHARS] that c by simp
  have "tryStrong parse state = None" "tryEmphasis parse state = None"
    "tryStrikethrough parse state = None" "tryUnderline parse state = None"
    "tryReference parse state = None" "tryCode parse state = None"
    "tryFile parse state = None" "tryImage parse state = None" "tryTag parse state = None"
    by (auto intro!: r simp: js_def)
  with l show ?thesis by (simp add: inline_step_def split: option.splits)
qed

lemma step_backtick:
  assumes i: "index state < length (string state)"
    and c: "string state ! index state = 96"
  shows "inline_step parse state =
      (case tryCode parse state of Some s \<Rightarrow> s | None \<Rightarrow> addText state)"
proof -
  have l: "tryLink state = None"
    using i c by (auto intro: tryLink_no_bracket)
  have r: "create CHARS ty rich req parse state = None"
    if "\<And>x. x \<in> set CHARS \<Longrightarrow> opn (getChars x) \<noteq> [] \<and> hd (opn (getChars x)) \<noteq> 96"
    for CHARS ty rich req
    using create_no_marker [OF i, of CHARS] that c by simp
  have "tryStrong parse state = None" "tryEmphasis parse state = None"
    "tryStrikethrough parse state = None" "tryUnderline parse state = None"
    "tryMark parse state = None" "tryReference parse state = None"
    "tryFile parse state = None" "tryImage parse state = None" "tryTag parse state = None"
    by (auto intro!: r simp: js_def)
  with l show ?thesis by (simp add: inline_step_def split: option.splits)
qed

lemma matchChars_pair:
  assumes i: "index state < length (string state)"
    and c: "string state ! index state = c" "c = a \<or> c = b"
    and m: "ma \<noteq> []" "mb \<noteq> []" "hd ma = a" "hd mb = b" "a \<noteq> b"
  shows "matchChars [Same ma, Same mb] state (index state) =
      (if stands_at (string state) (index state) (if c = a then ma else mb)
       then Some \<lparr>opn = (if c = a then ma else mb), cls = (if c = a then ma else mb)\<rparr> else None)"
proof (cases "c = a")
  case True
  have "\<not> stands_at (string state) (index state) mb"
    using not_stands_other [OF i m(2)] m True c(1) by simp
  then show ?thesis
    using True by (intro matchChars_only) auto
next
  case False
  with c have cb: "c = b" by simp
  have "\<not> stands_at (string state) (index state) ma"
    using not_stands_other [OF i m(1)] m cb c(1) by simp
  then show ?thesis
    using False by (intro matchChars_only) auto
qed

lemma matchChars_single:
  "matchChars [Same m] state (index state) =
      (if stands_at (string state) (index state) m then Some \<lparr>opn = m, cls = m\<rparr> else None)"
  by (intro matchChars_only) auto

lemma matchChars_symmetric:
  assumes i: "index state < length (string state)"
  shows "string state ! index state = c \<Longrightarrow> c = 42 \<or> c = 95 \<Longrightarrow>
      matchChars [Same (js ''**''), Same (js ''__'')] state (index state) =
        (if stands_at (string state) (index state) [c, c]
         then Some \<lparr>opn = [c, c], cls = [c, c]\<rparr> else None)"
    and "string state ! index state = c \<Longrightarrow> c = 42 \<or> c = 95 \<Longrightarrow>
      matchChars [Same (js ''*''), Same (js ''_'')] state (index state) =
        (if stands_at (string state) (index state) [c]
         then Some \<lparr>opn = [c], cls = [c]\<rparr> else None)"
  using matchChars_pair [OF i, of c 42 95 "[42, 42]" "[95, 95]"]
    matchChars_pair [OF i, of c 42 95 "[42]" "[95]"]
  by (auto simp: js_def)


lemma list_ex_upt:
  "list_ex P [a ..< b] = (if a < b then P a \<or> list_ex P [Suc a ..< b] else False)"
  by (simp add: upt_rec [of a b])

lemma list_all_upt:
  "list_all P [a ..< b] = (if a < b then P a \<and> list_all P [Suc a ..< b] else True)"
  by (simp add: upt_rec [of a b])

lemmas ev_marker = opens_validly_def nearest_closer_def valid_closer_def stands_at_def
  push_node_def list_ex_upt list_all_upt is_space_def js_def


section \<open>State reconciliation (shared.ts)\<close>

text \<open>
  \<open>getNewState(editor, from, to, text)\<close> builds the new block array after the blocks
  \<open>from\<close> to \<open>to\<close> have been replaced by \<open>text\<close>, and keeps the old block objects
  where it can. Blocks are objects and reuse is by reference, so the blocks live in a
  store (the list of all allocated objects), a reference is an index into it, and
  \<open>editor.state\<close> and the result are lists of references. A fresh block is allocated
  at the end of the store; no object is ever changed. \<open>editor.parser\<close> is \<open>parseBlock\<close>.
  The result is the new array with the new store, or the \<open>TypeError\<close> that reading
  \<open>newBlock.length\<close> raises when the parser has yielded nothing.
\<close>

type_synonym ref = nat
type_synonym store = "StateNode list"





text \<open>
  A generator is the list of the blocks it has yet to yield; \<open>preparser.next().value\<close>
  is its head, or \<open>undefined\<close> (here \<open>None\<close>) when it is exhausted.
\<close>

fun next_value :: "StateNode list \<Rightarrow> StateNode option \<times> StateNode list" where
  "next_value [] = (None, [])"
| "next_value (b # gen) = (Some b, gen)"







lemma next_value_Some_nonempty: "next_value gen = (Some b, gen') \<Longrightarrow> gen = b # gen'"
  by (cases gen) auto


















text \<open>The line at which the old block \<open>j\<close> starts.\<close>

definition old_offset :: "store \<Rightarrow> ref list \<Rightarrow> nat \<Rightarrow> nat" where
  "old_offset h state j = sum_list (map (\<lambda>r. length_or_1 (h ! r)) (take j state))"

lemma old_offset_0 [simp]: "old_offset h state 0 = 0"
  by (simp add: old_offset_def)















section \<open>Claims\<close>

subsection \<open>C1: round trip of parsing and serializing\<close>

text \<open>
  C1 states that for every document \<open>d\<close>, \<open>serializeState(parseBlock(d), true) = d\<close>.
  The code does not do that. \<open>serializeState\<close> passes the flag \<open>block\<close> on to the
  content of every node, so the pieces inside a block are joined by line feeds as well:
  the one-line document \<open># Hi\<close> parses to a heading with content \<open>["#", " Hi"]\<close> and
  serializes to \<open>#\<close>, line feed, \<open> Hi\<close>. Independently of the flag, \<open>tryLink\<close> searches
  the closing parenthesis from the opening bracket on, so a parenthesis inside the link
  text ends the link early and the text behind it is emitted twice: \<open>[a)b](url)\<close>
  comes back as \<open>[a)b]()b](url)\<close> even when nothing is joined by line feeds.
\<close>

theorem C1_roundtrip_fails:
  "serializeState (map Node (parseBlock (Inl (js ''# Hi'')) False)) True
     = js ''#'' @ [10] @ js '' Hi''
   \<and> serializeState (map Node (parseBlock (Inl (js ''# Hi'')) False)) True \<noteq> js ''# Hi''
   \<and> serializeState (map Node (parseBlock (Inl (js ''[a)b](url)'')) False)) False
     = js ''[a)b]()b](url)''"
  by (simp add: ev_block ev_inline)

subsection \<open>C8: task items\<close>

text \<open>
  C8 states that a line of optional white space, a task marker \<open>- [ ] \<close>, \<open>- [x] \<close> or
  \<open>- [X] \<close> and text is a task item. \<open>TODO_ITEM\<close> has no \<open>i\<close> flag: the line
  \<open>- [X] Cheese\<close> is not matched by it and becomes an unordered list item whose text
  starts with \<open> [X]\<close>.
\<close>

theorem C8_upper_case_X_not_a_task:
  "TODO_ITEM (js ''- [X] Cheese'') = None
   \<and> parseBlock (Inl (js ''- [X] Cheese'')) False =
       [StateNode ''unordered_list_item''
          [Str [], Str (js ''-''), Str (js '' [X] Cheese'')] (Some 1)]
   \<and> parseBlock (Inl (js ''  - [x] Cheese'')) False =
       [StateNode ''todo_item''
          [Str (js ''  ''), Str (js ''- [x]''), Str (js '' ''), Str (js ''Cheese'')] (Some 1)]"
  by (simp add: ev_block ev_inline)

subsection \<open>C7: WYSIWYG mode hides the syntax wherever the caret is\<close>

lemma enter_wysiwyg: "enter True c1 = enter True c2"
  by (intro ext) (simp add: enter_def Let_def)

lemma enter_wysiwyg_descends: "snd (enter True cur anc node)"
  by (simp add: enter_def Let_def)

lemma iterate_wysiwyg:
  "iterate (enter True cur) f t anc (SyntaxNode nm a b cs) =
     (if a \<le> t \<and> f \<le> b
      then fst (enter True cur anc (SyntaxNode nm a b cs)) @
           concat (map (iterate (enter True cur) f t (nm # anc)) cs)
      else [])"
  using enter_wysiwyg_descends [of cur anc "SyntaxNode nm a b cs"]
  by (cases "enter True cur anc (SyntaxNode nm a b cs)") auto

lemma enter_wysiwyg_gated:
  "(name node \<in> set [''ATXHeading1'', ''ATXHeading2'', ''ATXHeading3'', ''ATXHeading4'',
        ''ATXHeading5'', ''ATXHeading6'']
      \<longrightarrow> fst (enter True cur anc node) = [(decorationHeading, nfrom node, nto node)])
   \<and> (name node = ''Emphasis''
      \<longrightarrow> fst (enter True cur anc node) = [(decorationEmphasis, nfrom node, nto node)])
   \<and> (name node = ''StrongEmphasis''
      \<longrightarrow> fst (enter True cur anc node) = [(decorationStrong, nfrom node, nto node)])
   \<and> (name node = ''InlineCode''
      \<longrightarrow> fst (enter True cur anc node) = [(decorationInlineCode, nfrom node, nto node)])
   \<and> (name node \<in> set [''Link'', ''Autolink'']
      \<longrightarrow> fst (enter True cur anc node) = [(decorationLink, nfrom node, nto node)])
   \<and> (name node = ''Strikethrough''
      \<longrightarrow> fst (enter True cur anc node) = [(decorationStrikethrough, nfrom node, nto node)])
   \<and> (name node = ''Blockquote''
      \<longrightarrow> fst (enter True cur anc node) = [(decorationBlockquote, nfrom node, nto node)])
   \<and> (name node \<in> set [''HeaderMark'', ''EmphasisMark'', ''CodeMark'', ''LinkMark'',
        ''QuoteMark'', ''TaskMarker'', ''TableDelimiter'', ''URL'']
      \<longrightarrow> fst (enter True cur anc node) = [(decorationHidden, nfrom node, nto node)])
   \<and> (name node = ''ListMark'' \<and> matchContext anc [''BulletList'', ''ListItem'']
      \<longrightarrow> fst (enter True cur anc node) = [(decorationBullet, nfrom node, nto node)])
   \<and> (name node = ''FencedCode''
      \<longrightarrow> fst (enter True cur anc node) = [(decorationCode, nfrom node, nto node)])
   \<and> (name node = ''HorizontalRule''
      \<longrightarrow> fst (enter True cur anc node) = [(decorationHorizontalRule, nfrom node, nto node)])
   \<and> (\<not> (nfrom node \<le> sfrom away \<and> sto away \<le> nto node)
        \<and> sfrom away \<noteq> nfrom node \<and> sfrom away \<noteq> nfrom node + 1
      \<longrightarrow> fst (enter True cur anc node) = fst (enter False away anc node))"
  by (auto simp: enter_def Let_def)

text \<open>
  C7: with \<open>wysiwygMode = true\<close> the decorations do not depend on the selection; every
  focused check is short-circuited and the syntax is always hidden. Every use of the
  cursor in \<open>enter\<close> stands behind \<open>wysiwygMode ||\<close> or before \<open>&& !wysiwygMode\<close>. So
  (1) two views that differ in the cursor only get the same list of decorations,
  whatever way the tree is iterated; (2) \<open>enter\<close> never returns \<open>false\<close>, and the
  iteration over a node that touches the range is the node's decorations followed by
  the iteration over all its children; (3) every node of a decorated kind gets its
  decoration, the marks and URLs \<open>decorationHidden\<close>, a list mark in a bullet list
  \<open>decorationBullet\<close>, for every cursor; (4) what a node gets is what it gets with
  WYSIWYG off when the cursor is away from it (not contained in the node, and not at
  or one behind its start).
\<close>

theorem C7_wysiwyg_always_hides:
  "process_with iter True (v\<lparr>cursor := c1\<rparr>) = process_with iter True (v\<lparr>cursor := c2\<rparr>)
   \<and> process True (v\<lparr>cursor := c1\<rparr>) = process True (v\<lparr>cursor := c2\<rparr>)
   \<and> snd (enter True cur anc node)
   \<and> iterate (enter True cur) f t anc (SyntaxNode nm a b cs) =
       (if a \<le> t \<and> f \<le> b
        then fst (enter True cur anc (SyntaxNode nm a b cs)) @
             concat (map (iterate (enter True cur) f t (nm # anc)) cs)
        else [])
   \<and> (name node \<in> set [''ATXHeading1'', ''ATXHeading2'', ''ATXHeading3'', ''ATXHeading4'',
        ''ATXHeading5'', ''ATXHeading6'']
      \<longrightarrow> fst (enter True cur anc node) = [(decorationHeading, nfrom node, nto node)])
   \<and> (name node = ''Emphasis''
      \<longrightarrow> fst (enter True cur anc node) = [(decorationEmphasis, nfrom node, nto node)])
   \<and> (name node = ''StrongEmphasis''
      \<longrightarrow> fst (enter True cur anc node) = [(decorationStrong, nfrom node, nto node)])
   \<and> (name node = ''InlineCode''
      \<longrightarrow> fst (enter True cur anc node) = [(decorationInlineCode, nfrom node, nto node)])
   \<and> (name node \<in> set [''Link'', ''Autolink'']
      \<longrightarrow> fst (enter True cur anc node) = [(decorationLink, nfrom node, nto node)])
   \<and> (name node = ''Strikethrough''
      \<longrightarrow> fst (enter True cur anc node) = [(decorationStrikethrough, nfrom node, nto node)])
   \<and> (name node = ''Blockquote''
      \<longrightarrow> fst (enter True cur anc node) = [(decorationBlockquote, nfrom node, nto node)])
   \<and> (name node \<in> set [''HeaderMark'', ''EmphasisMark'', ''CodeMark'', ''LinkMark'',
        ''QuoteMark'', ''TaskMarker'', ''TableDelimiter'', ''URL'']
      \<longrightarrow> fst (enter True cur anc node) = [(decorationHidden, nfrom node, nto node)])
   \<and> (name node = ''ListMark'' \<and> matchContext anc [''BulletList'', ''ListItem'']
      \<longrightarrow> fst (enter True cur anc node) = [(decorationBullet, nfrom node, nto node)])
   \<and> (name node = ''FencedCode''
      \<longrightarrow> fst (enter True cur anc node) = [(decorationCode, nfrom node, nto node)])
   \<and> (name node = ''HorizontalRule''
      \<longrightarrow> fst (enter True cur anc node) = [(decorationHorizontalRule, nfrom node, nto node)])
   \<and> (\<not> (nfrom node \<le> sfrom away \<and> sto away \<le> nto node)
        \<and> sfrom away \<noteq> nfrom node \<and> sfrom away \<noteq> nfrom node + 1
      \<longrightarrow> fst (enter True cur anc node) = fst (enter False away anc node))"
proof -
  have p1: "process_with iter True (v\<lparr>cursor := c1\<rparr>) = process_with iter True (v\<lparr>cursor := c2\<rparr>)"
    by (simp add: process_with_def enter_wysiwyg [of c1 c2])
  have p2: "process True (v\<lparr>cursor := c1\<rparr>) = process True (v\<lparr>cursor := c2\<rparr>)"
    by (simp add: process_with_def enter_wysiwyg [of c1 c2])
  note p3 = enter_wysiwyg_descends [of cur anc node]
  note p4 = iterate_wysiwyg [of cur f t anc nm a b cs]
  note p5 = enter_wysiwyg_gated [of node cur anc away]
  show ?thesis
    by (rule conjI [OF p1 conjI [OF p2 conjI [OF p3 conjI [OF p4 p5]]]])
qed

text \<open>
  An emphasis node from 5 to 10 with its two marks and the cursor from 6 to 8 inside
  it: with WYSIWYG on the node is decorated and both marks are hidden, as they are with
  WYSIWYG off and the cursor at 50.
\<close>

theorem C7_wysiwyg_always_hides_witness:
  "process True
     \<lparr>visibleRanges = [(0, 100)], cursor = \<lparr>sfrom = 6, sto = 8\<rparr>,
      tree = SyntaxNode ''Emphasis'' 5 10
        [SyntaxNode ''EmphasisMark'' 5 6 [], SyntaxNode ''EmphasisMark'' 9 10 []]\<rparr>
     = [(decorationEmphasis, 5, 10), (decorationHidden, 5, 6), (decorationHidden, 9, 10)]
   \<and> enter True \<lparr>sfrom = 6, sto = 8\<rparr> []
        (SyntaxNode ''Emphasis'' 5 10
           [SyntaxNode ''EmphasisMark'' 5 6 [], SyntaxNode ''EmphasisMark'' 9 10 []])
     = (fst (enter False \<lparr>sfrom = 50, sto = 50\<rparr> []
          (SyntaxNode ''Emphasis'' 5 10
             [SyntaxNode ''EmphasisMark'' 5 6 [], SyntaxNode ''EmphasisMark'' 9 10 []])), True)"
  using C7_wysiwyg_always_hides [where iter = iterate
      and v = "\<lparr>visibleRanges = [(0, 100)], cursor = \<lparr>sfrom = 6, sto = 8\<rparr>,
        tree = SyntaxNode ''Emphasis'' 5 10
          [SyntaxNode ''EmphasisMark'' 5 6 [], SyntaxNode ''EmphasisMark'' 9 10 []]\<rparr>"
      and ?c1.0 = "\<lparr>sfrom = 6, sto = 8\<rparr>" and ?c2.0 = "\<lparr>sfrom = 50, sto = 50\<rparr>"
      and cur = "\<lparr>sfrom = 6, sto = 8\<rparr>" and anc = "[]"
      and node = "SyntaxNode ''Emphasis'' 5 10
          [SyntaxNode ''EmphasisMark'' 5 6 [], SyntaxNode ''EmphasisMark'' 9 10 []]"
      and f = 0 and t = 100 and nm = "''Emphasis''" and a = 5 and b = 10
      and cs = "[SyntaxNode ''EmphasisMark'' 5 6 [], SyntaxNode ''EmphasisMark'' 9 10 []]"
      and away = "\<lparr>sfrom = 50, sto = 50\<rparr>"]
  by (simp add: process_with_def enter_def)


subsection \<open>C3: focused nodes\<close>







subsection \<open>C6: line accounting\<close>

text \<open>
  C6: a line that no block rule matches yields the placeholder paragraph with empty
  content and line span 1, and the line spans of the blocks add up to the number of
  lines. The lines that no rule matches are exactly the blank ones (empty after
  \<open>trim\<close>); at such a line the parser yields the placeholder and goes on with the next
  line; and the sum of \<open>length || 1\<close> over all blocks of \<open>parseBlock\<close> is the number of
  lines of the input, for a string and for an array of lines, with and without
  \<open>typeOnly\<close>.
\<close>

theorem C6_line_accounting:
  "sum_list (map length_or_1 (parseBlock v typeOnly))
     = length (case v of Inl s \<Rightarrow> split_lines s | Inr ls \<Rightarrow> ls)
   \<and> ((first_result parsers parseInl lines idx = None) = (trim (lines ! idx) = []))
   \<and> (idx < length lines \<and> trim (lines ! idx) = [] \<longrightarrow>
        parseBlock_from parseInl lines idx =
          StateNode ''paragraph'' [Str []] (Some 1) # parseBlock_from parseInl lines (idx + 1))"
proof (intro conjI impI)
  show "sum_list (map length_or_1 (parseBlock v typeOnly))
     = length (case v of Inl s \<Rightarrow> split_lines s | Inr ls \<Rightarrow> ls)"
    by (simp add: parseBlock_def sum_parseBlock_from)
  show "(first_result parsers parseInl lines idx = None) = (trim (lines ! idx) = [])"
    by (rule first_result_None_iff)
  assume "idx < length lines \<and> trim (lines ! idx) = []"
  then have "idx < length lines" "first_result parsers parseInl lines idx = None"
    by (simp_all add: first_result_None_iff)
  then show "parseBlock_from parseInl lines idx =
      StateNode ''paragraph'' [Str []] (Some 1) # parseBlock_from parseInl lines (idx + 1)"
    by (simp add: parseBlock_from_step)
qed

text \<open>
  The document of five lines \<open>a\<close>, a line of one space, an opening fence, \<open>x\<close> and a
  closing fence: a paragraph, the placeholder and a code block of span 3.
\<close>

theorem C6_line_accounting_witness:
  "parseBlock (Inl (js ''a'' @ [10, 32, 10, 96, 96, 96, 10] @ js ''x'' @ [10, 96, 96, 96])) False =
     [StateNode ''paragraph'' [Str (js ''a'')] (Some 1),
      StateNode ''paragraph'' [Str []] (Some 1),
      StateNode ''code_block''
        [Str [96, 96, 96], Str [], Str [10], Str (js ''x''), Str [10], Str [96, 96, 96]] (Some 3)]
   \<and> sum_list (map length_or_1
        (parseBlock (Inl (js ''a'' @ [10, 32, 10, 96, 96, 96, 10] @ js ''x'' @ [10, 96, 96, 96]))
           False)) = 5"
  using C6_line_accounting
    [of "Inl (js ''a'' @ [10, 32, 10, 96, 96, 96, 10] @ js ''x'' @ [10, 96, 96, 96])" False
       parseInline "[js ''a'', [32], [96, 96, 96], js ''x'', [96, 96, 96]]" 1]
  by (simp add: ev_block ev_inline)

subsection \<open>C5: unterminated code fence\<close>

text \<open>
  C5: when no later line closes an opened fence, no code block is produced, the line
  falls through to the lower rules, and serializing gives the original text back; a
  closed fence has line span \<open>closingLineIndex - index + 1\<close>. The fall-through
  (\<open>unterminated_fence_is_paragraph\<close>) and the line span (\<open>codeBlock_Some\<close>) hold. The
  round trip does not: the document of the two lines \<open>```js\<close> and \<open>console.log(1)\<close>
  parses to two paragraphs, the first with an empty code span and the text \<open>`js\<close>, and
  \<open>serializeState\<close> with \<open>block = true\<close> joins the pieces inside the code span and inside
  the paragraph by line feeds as well, for the reason given under C1.
\<close>

theorem C5_unterminated_fence_roundtrip_fails:
  "parseBlock (Inl ([96, 96, 96] @ js ''js'' @ [10] @ js ''console.log(1)'')) False =
     [StateNode ''paragraph''
        [Node (StateNode ''code'' [Str [96], Str [], Str [96]] None), Str ([96] @ js ''js'')]
        (Some 1),
      StateNode ''paragraph'' [Str (js ''console.log(1)'')] (Some 1)]
   \<and> serializeState
        (map Node (parseBlock (Inl ([96, 96, 96] @ js ''js'' @ [10] @ js ''console.log(1)'')) False))
        True
       = [96, 10, 10, 96, 10, 96] @ js ''js'' @ [10] @ js ''console.log(1)''
   \<and> serializeState
        (map Node (parseBlock (Inl ([96, 96, 96] @ js ''js'' @ [10] @ js ''console.log(1)'')) False))
        True
       \<noteq> [96, 96, 96] @ js ''js'' @ [10] @ js ''console.log(1)''"
  by (simp add: ev_block ev_inline)

subsection \<open>C10: termination\<close>

lemma while_inline:
  "\<exists>st'. while_option (\<lambda>st. index st < length (string st))
           (\<lambda>st. inline_step (\<lambda>a b. parseInline (slice (string st) a b)) st) state = Some st'
         \<and> tokens st' = parseInline_loop state"
proof (induction state rule: parseInline_loop.induct)
  case (1 state)
  show ?case
  proof (cases "index state < length (string state)")
    case True
    from 1(2) [OF True] True show ?thesis
      by (subst while_option_unfold, subst parseInline_loop_unfold) (simp add: parseInline_def)
  next
    case False
    then show ?thesis
      by (subst while_option_unfold, subst parseInline_loop_unfold) simp
  qed
qed

lemma while_block:
  "idx \<le> length lines \<Longrightarrow>
   while_option (\<lambda>(idx, out). idx < length lines) (block_step parseInl lines) (idx, out)
     = Some (length lines, out @ parseBlock_from parseInl lines idx)"
proof (induction parseInl lines idx arbitrary: out rule: parseBlock_from.induct)
  case (1 parseInl lines idx)
  show ?case
  proof (cases "idx < length lines")
    case False
    with 1(3) show ?thesis
      by (subst while_option_unfold) (simp add: parseBlock_from_end)
  next
    case True
    show ?thesis
    proof (cases "first_result parsers parseInl lines idx")
      case None
      from True have "idx + 1 \<le> length lines" by simp
      from 1(1) [OF True None this] True None show ?thesis
        by (subst while_option_unfold) (simp add: block_step_def parseBlock_from_step)
    next
      case (Some r)
      from first_result_length [OF Some True] have "idx + length_or_1 r \<le> length lines" by simp
      from 1(2) [OF True Some this] True Some show ?thesis
        by (subst while_option_unfold) (simp add: block_step_def parseBlock_from_step)
    qed
  qed
qed

lemma block_step_advances:
  assumes "idx < length lines"
  shows "idx < fst (block_step parseInl lines (idx, out))
     \<and> fst (block_step parseInl lines (idx, out)) \<le> length lines"
proof (cases "first_result parsers parseInl lines idx")
  case None
  with assms show ?thesis by (simp add: block_step_def)
next
  case (Some r)
  from first_result_length [OF Some assms] Some show ?thesis
    by (simp add: block_step_def)
qed

text \<open>
  C10: \<open>parseInline\<close> and \<open>parseBlock\<close> terminate on every input, every iteration
  advancing the scan index. Both parsers are total recursive functions here, their
  termination proved from the measure \<open>length - index\<close> (and, for the recursive call of
  \<open>state.parse\<close>, from the length of the string). Stated on the loops themselves:
  the \<open>while\<close> loop of \<open>parseInline\<close> with its loop body \<open>inline_step\<close> stops, in a state
  whose tokens are the result of \<open>parseInline\<close>; every iteration moves the index
  forward and not beyond the end; the same holds for the loop of \<open>parseBlock\<close>, which
  stops with the index at the number of lines.
\<close>

theorem C10_parsers_terminate:
  "(\<exists>st. while_option (\<lambda>st. index st < length (string st))
            (\<lambda>st. inline_step (\<lambda>a b. parseInline (slice (string st) a b)) st)
            \<lparr>index = 0, string = text, tokens = []\<rparr> = Some st
          \<and> tokens st = parseInline text)
   \<and> (index state < length (string state) \<longrightarrow>
        index state < index (inline_step parse state)
        \<and> index (inline_step parse state) \<le> length (string state))
   \<and> while_option (\<lambda>(idx, out). idx < length lines) (block_step parseInl lines) (0, [])
        = Some (length lines, parseBlock_from parseInl lines 0)
   \<and> (idx < length lines \<longrightarrow>
        idx < fst (block_step parseInl lines (idx, out))
        \<and> fst (block_step parseInl lines (idx, out)) \<le> length lines)"
  using while_inline [of "\<lparr>index = 0, string = text, tokens = []\<rparr>"]
    while_block [of 0 lines parseInl "[]"]
  by (auto simp: parseInline_def inline_step_index block_step_advances)

text \<open>On the text \<open>**a*\<close> the first iteration moves the index from 0 to 2; on the lines
  \<open># Hi\<close> and \<open>x\<close> the first iteration of the block loop moves it from 0 to 1.\<close>

theorem C10_parsers_terminate_witness:
  "index \<lparr>index = 0, string = js ''**a*'', tokens = []\<rparr>
     < length (string \<lparr>index = 0, string = js ''**a*'', tokens = []\<rparr>)
   \<and> index \<lparr>index = 0, string = js ''**a*'', tokens = []\<rparr>
     < index (inline_step (\<lambda>a b. []) \<lparr>index = 0, string = js ''**a*'', tokens = []\<rparr>)
   \<and> index (inline_step (\<lambda>a b. []) \<lparr>index = 0, string = js ''**a*'', tokens = []\<rparr>) = 2
   \<and> (0::nat) < length [js ''# Hi'', js ''x'']
   \<and> 0 < fst (block_step parseInline [js ''# Hi'', js ''x''] (0, []))
   \<and> fst (block_step parseInline [js ''# Hi'', js ''x''] (0, [])) = 1"
  using C10_parsers_terminate [of "js ''**a*''" "\<lparr>index = 0, string = js ''**a*'', tokens = []\<rparr>"
      "\<lambda>a b. []" "[js ''# Hi'', js ''x'']" parseInline 0 "[]"]
  by (simp add: block_step_def ev_block ev_inline)

subsection \<open>C9: tags\<close>

text \<open>
  C9: a tag node is produced only when the tag content is not empty, and its content
  never contains white space. The rule is \<open>create(['#'], 'tag', false, true)\<close>: a tag is
  opened and closed by \<open>#\<close>, the content between them must not be empty, and white
  space is excluded only right after the opening and right before the closing \<open>#\<close>.
  Amended: every tag node in the result of \<open>parseInline\<close>, nested ones included, has
  the content \<open>#\<close>, text, \<open>#\<close> with a text that is not empty and neither starts nor ends
  with white space.
\<close>

theorem C9_tag_content:
  "\<forall>n \<in> set (all_nodes (parseInline text)). type n = ''tag'' \<longrightarrow>
     (\<exists>c. content n = [Str (js ''#''), Str c, Str (js ''#'')]
        \<and> c \<noteq> [] \<and> \<not> is_space (hd c) \<and> \<not> is_space (last c))"
proof -
  have "list_all tag_inv (all_nodes (parseInline text))"
    unfolding parseInline_def by (rule parseInline_loop_tags) simp
  then show ?thesis
    by (simp add: list_all_iff tag_inv_def)
qed

text \<open>The text \<open>x #a b#\<close>: its one tag node has the content \<open>a b\<close>.\<close>

theorem C9_tag_content_witness:
  "parseInline (js ''x #a b#'') =
     [Str (js ''x ''), Node (StateNode ''tag'' [Str (js ''#''), Str (js ''a b''), Str (js ''#'')] None)]
   \<and> (\<exists>c. [Str (js ''#''), Str (js ''a b''), Str (js ''#'')] = [Str (js ''#''), Str c, Str (js ''#'')]
        \<and> c \<noteq> [] \<and> \<not> is_space (hd c) \<and> \<not> is_space (last c))"
  using C9_tag_content [of "js ''x #a b#''"]
  by (simp add: ev_inline)

text \<open>
  The claim as stated fails on \<open>#a b#\<close>: the parser produces a tag node whose content
  \<open>a b\<close> holds a space.
\<close>

theorem C9_tag_whitespace_counterexample:
  "parseInline (js ''#a b#'') =
     [Node (StateNode ''tag'' [Str (js ''#''), Str (js ''a b''), Str (js ''#'')] None)]
   \<and> list_ex is_space (js ''a b'')"
  by (simp add: ev_inline)


subsection \<open>C4: symmetric inline markers\<close>

text \<open>
  C4: where a symmetric marker, one of \<open>**\<close>, \<open>__\<close>, \<open>*\<close>, \<open>_\<close>, \<open>~~\<close>, \<open>~\<close>, \<open>::\<close> and the backtick, opens,
  the parser produces a node for it exactly when the code unit behind the opening marker
  exists and is not white space and a later occurrence of the marker is preceded by a code
  unit that is not white space; the closer is the nearest such occurrence; without a valid
  closer the opening characters become plain text, and parsing never fails.
  The rules are tried in the order strong, em, strikethrough, underline, mark, code, and a
  rule that fails hands over to the next one, so a doubled marker without a closer is
  still read by the rule of the single marker.
  Amended: at every position of the scan, one iteration of the loop of \<open>parseInline\<close>
  is one call of \<open>inline_step\<close>, and
  on \<open>*\<close> or \<open>_\<close>: if the doubled marker opens validly, a strong node with the nearest
  valid closer is pushed; otherwise, if the single marker opens validly, an em node with
  its nearest valid closer; otherwise the code unit is appended as plain text;
  on \<open>~\<close>: the same with strikethrough for \<open>~~\<close> and underline for \<open>~\<close>;
  on \<open>:\<close>: a mark node exactly when \<open>::\<close> opens validly, plain text otherwise;
  on a backtick: a code node, its content the raw text, exactly when the backtick opens
  validly, plain text otherwise.
  Every node is marker, content, marker, and the index moves behind the closing marker.
\<close>

theorem C4_symmetric_markers:
  assumes "index state < length (string state)"
  shows "parseInline_loop state =
           parseInline_loop (inline_step (\<lambda>a b. parseInline (slice (string state) a b)) state)
    \<and> (string state ! index state = c \<and> (c = 42 \<or> c = 95) \<longrightarrow>
         (opens_validly state [c, c] \<longrightarrow>
            (\<exists>n. nearest_closer state [c, c] n \<and>
               inline_step parse state =
                 push_node state ''strong'' [c, c] (parse (index state + 2) n) n))
       \<and> (\<not> opens_validly state [c, c] \<and> opens_validly state [c] \<longrightarrow>
            (\<exists>n. nearest_closer state [c] n \<and>
               inline_step parse state =
                 push_node state ''em'' [c] (parse (index state + 1) n) n))
       \<and> (\<not> opens_validly state [c] \<longrightarrow> inline_step parse state = addText state))
    \<and> (string state ! index state = 126 \<longrightarrow>
         (opens_validly state [126, 126] \<longrightarrow>
            (\<exists>n. nearest_closer state [126, 126] n \<and>
               inline_step parse state =
                 push_node state ''strikethrough'' [126, 126] (parse (index state + 2) n) n))
       \<and> (\<not> opens_validly state [126, 126] \<and> opens_validly state [126] \<longrightarrow>
            (\<exists>n. nearest_closer state [126] n \<and>
               inline_step parse state =
                 push_node state ''underline'' [126] (parse (index state + 1) n) n))
       \<and> (\<not> opens_validly state [126] \<longrightarrow> inline_step parse state = addText state))
    \<and> (string state ! index state = 58 \<longrightarrow>
         (opens_validly state [58, 58] \<longrightarrow>
            (\<exists>n. nearest_closer state [58, 58] n \<and>
               inline_step parse state =
                 push_node state ''mark'' [58, 58] (parse (index state + 2) n) n))
       \<and> (\<not> opens_validly state [58, 58] \<longrightarrow> inline_step parse state = addText state))
    \<and> (string state ! index state = 96 \<longrightarrow>
         (opens_validly state [96] \<longrightarrow>
            (\<exists>n. nearest_closer state [96] n \<and>
               inline_step parse state =
                 push_node state ''code'' [96]
                   [Str (slice (string state) (index state + 1) n)] n))
       \<and> (\<not> opens_validly state [96] \<longrightarrow> inline_step parse state = addText state))"
proof -
  note i = assms
  have p1: "parseInline_loop state =
           parseInline_loop (inline_step (\<lambda>a b. parseInline (slice (string state) a b)) state)"
    using i by (subst parseInline_loop_unfold) simp
  have p2: "string state ! index state = c \<and> (c = 42 \<or> c = 95) \<longrightarrow>
         (opens_validly state [c, c] \<longrightarrow>
            (\<exists>n. nearest_closer state [c, c] n \<and>
               inline_step parse state =
                 push_node state ''strong'' [c, c] (parse (index state + 2) n) n))
       \<and> (\<not> opens_validly state [c, c] \<and> opens_validly state [c] \<longrightarrow>
            (\<exists>n. nearest_closer state [c] n \<and>
               inline_step parse state =
                 push_node state ''em'' [c] (parse (index state + 1) n) n))
       \<and> (\<not> opens_validly state [c] \<longrightarrow> inline_step parse state = addText state)"
  proof
    assume c: "string state ! index state = c \<and> (c = 42 \<or> c = 95)"
    then have ns: "\<not> is_space c" by (auto simp: is_space_def)
    from c have c1: "string state ! index state = c" and c2: "c = 42 \<or> c = 95"
      by simp_all
    show "(opens_validly state [c, c] \<longrightarrow>
            (\<exists>n. nearest_closer state [c, c] n \<and>
               inline_step parse state =
                 push_node state ''strong'' [c, c] (parse (index state + 2) n) n))
       \<and> (\<not> opens_validly state [c, c] \<and> opens_validly state [c] \<longrightarrow>
            (\<exists>n. nearest_closer state [c] n \<and>
               inline_step parse state =
                 push_node state ''em'' [c] (parse (index state + 1) n) n))
       \<and> (\<not> opens_validly state [c] \<longrightarrow> inline_step parse state = addText state)"
      by (rule two_rules_scan [OF step_two_rules [OF i c1 c2]
            matchChars_symmetric(1) [OF i c1 c2] matchChars_symmetric(2) [OF i c1 c2] ns])
  qed
  have p3: "string state ! index state = 126 \<longrightarrow>
         (opens_validly state [126, 126] \<longrightarrow>
            (\<exists>n. nearest_closer state [126, 126] n \<and>
               inline_step parse state =
                 push_node state ''strikethrough'' [126, 126] (parse (index state + 2) n) n))
       \<and> (\<not> opens_validly state [126, 126] \<and> opens_validly state [126] \<longrightarrow>
            (\<exists>n. nearest_closer state [126] n \<and>
               inline_step parse state =
                 push_node state ''underline'' [126] (parse (index state + 1) n) n))
       \<and> (\<not> opens_validly state [126] \<longrightarrow> inline_step parse state = addText state)"
  proof
    assume c: "string state ! index state = 126"
    have ns: "\<not> is_space 126" by (simp add: is_space_def)
    have m2: "matchChars [Same (js ''~~'')] state (index state) =
        (if stands_at (string state) (index state) [126, 126]
         then Some \<lparr>opn = [126, 126], cls = [126, 126]\<rparr> else None)"
      using matchChars_single [of "[126, 126]" state] by (simp add: js_def)
    have m1: "matchChars [Same (js ''~'')] state (index state) =
        (if stands_at (string state) (index state) [126]
         then Some \<lparr>opn = [126], cls = [126]\<rparr> else None)"
      using matchChars_single [of "[126]" state] by (simp add: js_def)
    show "(opens_validly state [126, 126] \<longrightarrow>
            (\<exists>n. nearest_closer state [126, 126] n \<and>
               inline_step parse state =
                 push_node state ''strikethrough'' [126, 126] (parse (index state + 2) n) n))
       \<and> (\<not> opens_validly state [126, 126] \<and> opens_validly state [126] \<longrightarrow>
            (\<exists>n. nearest_closer state [126] n \<and>
               inline_step parse state =
                 push_node state ''underline'' [126] (parse (index state + 1) n) n))
       \<and> (\<not> opens_validly state [126] \<longrightarrow> inline_step parse state = addText state)"
      by (rule two_rules_scan [OF step_tilde [OF i c] m2 m1 ns])
  qed
  have p4: "string state ! index state = 58 \<longrightarrow>
         (opens_validly state [58, 58] \<longrightarrow>
            (\<exists>n. nearest_closer state [58, 58] n \<and>
               inline_step parse state =
                 push_node state ''mark'' [58, 58] (parse (index state + 2) n) n))
       \<and> (\<not> opens_validly state [58, 58] \<longrightarrow> inline_step parse state = addText state)"
  proof
    assume c: "string state ! index state = 58"
    have m: "matchChars [Same (js ''::'')] state (index state) =
        (if stands_at (string state) (index state) [58, 58]
         then Some \<lparr>opn = [58, 58], cls = [58, 58]\<rparr> else None)"
      using matchChars_single [of "[58, 58]" state] by (simp add: js_def)
    show "(opens_validly state [58, 58] \<longrightarrow>
            (\<exists>n. nearest_closer state [58, 58] n \<and>
               inline_step parse state =
                 push_node state ''mark'' [58, 58] (parse (index state + 2) n) n))
       \<and> (\<not> opens_validly state [58, 58] \<longrightarrow> inline_step parse state = addText state)"
      using one_rule_scan [OF step_colon [OF i c] m] by simp
  qed
  have p5: "string state ! index state = 96 \<longrightarrow>
         (opens_validly state [96] \<longrightarrow>
            (\<exists>n. nearest_closer state [96] n \<and>
               inline_step parse state =
                 push_node state ''code'' [96]
                   [Str (slice (string state) (index state + 1) n)] n))
       \<and> (\<not> opens_validly state [96] \<longrightarrow> inline_step parse state = addText state)"
  proof
    assume c: "string state ! index state = 96"
    show "(opens_validly state [96] \<longrightarrow>
            (\<exists>n. nearest_closer state [96] n \<and>
               inline_step parse state =
                 push_node state ''code'' [96]
                   [Str (slice (string state) (index state + 1) n)] n))
       \<and> (\<not> opens_validly state [96] \<longrightarrow> inline_step parse state = addText state)"
      using one_rule_scan [OF step_backtick [OF i c] matchChars_single [of "[96]" state]] by simp
  qed
  show ?thesis
    by (rule conjI [OF p1 conjI [OF p2 conjI [OF p3 conjI [OF p4 p5]]]])
qed

text \<open>The text \<open>**a**\<close>: the marker \<open>**\<close> opens validly at 0 and a strong node is pushed.\<close>

theorem C4_symmetric_markers_witness:
  "opens_validly \<lparr>index = 0, string = js ''**a**'', tokens = []\<rparr> [42, 42]
   \<and> (\<exists>n. nearest_closer \<lparr>index = 0, string = js ''**a**'', tokens = []\<rparr> [42, 42] n
        \<and> inline_step (\<lambda>a b. [])
             \<lparr>index = 0, string = js ''**a**'', tokens = []\<rparr> =
           push_node \<lparr>index = 0, string = js ''**a**'', tokens = []\<rparr> ''strong'' [42, 42] [] n)"
proof -
  have "opens_validly \<lparr>index = 0, string = js ''**a**'', tokens = []\<rparr> [42, 42]"
    by (simp add: opens_validly_def valid_closer_def stands_at_def list_ex_upt is_space_def
        js_def)
  then show ?thesis
    using C4_symmetric_markers [of "\<lparr>index = 0, string = js ''**a**'', tokens = []\<rparr>" 42
        "\<lambda>a b. []", THEN conjunct2, THEN conjunct1]
    by (simp add: js_def)
qed

text \<open>
  The claim as stated fails on \<open>**a*\<close>: the marker \<open>**\<close> stands at 0, the code unit behind
  it is \<open>a\<close>, and no later \<open>**\<close> exists, but the two opening characters are not plain
  text: they become an em node with empty content. It fails on \<open>**a**\<close> for the marker
  \<open>*\<close>, which opens validly at 0 (the closer is the second \<open>*\<close>), where the node
  produced is the strong node.
\<close>

theorem C4_fallthrough_counterexample:
  "stands_at (js ''**a*'') 0 (js ''**'')
   \<and> \<not> is_space (js ''**a*'' ! 2)
   \<and> \<not> list_ex (valid_closer \<lparr>index = 0, string = js ''**a*'', tokens = []\<rparr> (js ''**''))
         [0 ..< length (js ''**a*'')]
   \<and> parseInline (js ''**a*'') =
       [Node (StateNode ''em'' [Str (js ''*''), Str (js ''*'')] None), Str (js ''a*'')]
   \<and> parseInline (js ''**a*'') \<noteq> [Str (js ''**a*'')]
   \<and> opens_validly \<lparr>index = 0, string = js ''**a**'', tokens = []\<rparr> (js ''*'')
   \<and> parseInline (js ''**a**'') =
       [Node (StateNode ''strong'' [Str (js ''**''), Str (js ''a''), Str (js ''**'')] None)]"
  by (simp add: ev_marker ev_inline)


subsection \<open>C2: reuse of the blocks around an edited paragraph\<close>





end
